theory Spec2Isabelle
  imports Main "HOL-Library.Word" "HOL-Library.Sublist" "HOL-Library.Monad_Syntax"
    "HOL-Library.Code_Target_Nat"
begin

unbundle bit_operations_syntax

section \<open>The Configuration ROM buffer\<close>

text \<open>
  \<^verbatim>\<open>config-rom-pretty-printer.c\<close> keeps the image in \<^verbatim>\<open>uint8_t data[1024]\<close> and reads it
  only through \<^verbatim>\<open>uint32_t *\<close> casts at byte offsets that are multiples of four.  The
  buffer is modelled as the quadlets it holds, indexed by quadlet number; the bytes past
  the \<^verbatim>\<open>length\<close> that \<^verbatim>\<open>read(2)\<close> returned are whatever the stack held, so the model is a
  total function and no theorem assumes anything about them.  Sizes and offsets
  (\<^verbatim>\<open>size_t\<close>, \<^verbatim>\<open>ssize_t\<close>) are natural numbers: they stay far below \<open>2 ^ 64\<close>.
  The 32-bit arithmetic of the source is done on \<open>32 word\<close>, where it wraps.
\<close>

type_synonym rom = "nat \<Rightarrow> 32 word"

definition quadlet_at :: "rom \<Rightarrow> nat \<Rightarrow> 32 word" where
  \<comment> \<open>\<^verbatim>\<open>*((uint32_t *)(data + offset))\<close>\<close>
  "quadlet_at data off = data (off div 4)"

section \<open>Helpers to detect layout of blocks according to IEEE 1212\<close>

datatype ieee1212_block_type =
    IEEE1212_BUS_INFO_BLOCK
  | IEEE1212_ROOT_DIRECTORY_BLOCK
  | IEEE1212_LEAF_BLOCK
  | IEEE1212_DIRECTORY_BLOCK
  | ORPHAN_BLOCK

text \<open>
  \<^verbatim>\<open>struct ieee1212_block\<close>.  The \<^verbatim>\<open>content\<close> pointer is always \<^verbatim>\<open>data + offset\<close> and is
  not stored.  The union \<^verbatim>\<open>data.leaf\<close> / \<^verbatim>\<open>data.directory\<close> (both members have the same
  layout) is \<open>None\<close> where the source leaves it unset.  A pointer to a block is modelled
  by the offset of the block it points to: blocks are never moved or freed before the
  run ends, and \<open>None\<close> is the null pointer.
\<close>

record block_data =
  key_id :: nat
  parent :: "nat option"

record ieee1212_block =
  offset :: nat
  length_b :: nat
  block_type :: ieee1212_block_type
  data_u :: "block_data option"

datatype error = EINVAL | ENOSPC | ENOMEM

text \<open>
  \<^verbatim>\<open>malloc\<close>: every descriptor that is allocated is linked into the list and none is
  freed before the end, so the number of live allocations is the length of the list.
  The parameter \<open>cap\<close> is the number of descriptors the heap can hold; \<^verbatim>\<open>malloc\<close>
  returns \<^verbatim>\<open>NULL\<close> once it is reached.
\<close>

definition malloc_ok :: "nat \<Rightarrow> ieee1212_block list \<Rightarrow> bool" where
  "malloc_ok cap head = (length head < cap)"

fun insert_after_cursor ::
  "ieee1212_block \<Rightarrow> ieee1212_block \<Rightarrow> ieee1212_block list \<Rightarrow> ieee1212_block list" where
  \<comment> \<open>the \<^verbatim>\<open>while (true)\<close> loop: \<open>cursor\<close>, then the rest of the list after it\<close>
  "insert_after_cursor entry cursor [] = [cursor, entry]"
| "insert_after_cursor entry cursor (peek # rest) =
     (if offset peek > offset entry then cursor # entry # peek # rest
      else cursor # insert_after_cursor entry peek rest)"

definition insert_block_by_offset ::
  "ieee1212_block list \<Rightarrow> ieee1212_block \<Rightarrow> ieee1212_block list" where
  "insert_block_by_offset head entry =
     (case head of
        [] \<Rightarrow> [entry]
      | cursor # rest \<Rightarrow> insert_after_cursor entry cursor rest)"

definition detect_ieee1212_bus_info_block_length :: "rom \<Rightarrow> nat \<Rightarrow> nat \<Rightarrow> error + nat" where
  \<comment> \<open>\<^verbatim>\<open>4 * (quadlet & MASK) >> SHIFT\<close> parses as \<^verbatim>\<open>(4 * (quadlet & MASK)) >> SHIFT\<close>,
      and the product is an \<^verbatim>\<open>unsigned int\<close>\<close>
  "detect_ieee1212_bus_info_block_length data len off =
     (let quadlet = data 0;
          block_length = 4 + unat (drop_bit 24 (4 * (quadlet AND 0xff000000)))
      in if off + block_length > len then Inl EINVAL else Inr block_length)"

definition detect_ieee1212_bus_info_block ::
  "nat \<Rightarrow> nat \<Rightarrow> nat \<Rightarrow> ieee1212_block list \<Rightarrow> error + ieee1212_block list" where
  "detect_ieee1212_bus_info_block cap off block_length head =
     (if \<not> malloc_ok cap head then Inl ENOMEM
      else Inr (insert_block_by_offset head
             \<lparr>offset = off, length_b = block_length,
              block_type = IEEE1212_BUS_INFO_BLOCK, data_u = None\<rparr>))"

definition detect_ieee1212_block_length :: "rom \<Rightarrow> nat \<Rightarrow> nat \<Rightarrow> error + nat" where
  "detect_ieee1212_block_length data len off =
     (let quadlet = quadlet_at data off;
          block_length = 4 + unat (drop_bit 16 (4 * (quadlet AND 0xffff0000)))
      in if off + block_length > len then Inl EINVAL else Inr block_length)"

definition detect_ieee1212_leaf_block ::
  "nat \<Rightarrow> nat \<Rightarrow> nat \<Rightarrow> nat \<Rightarrow> nat option \<Rightarrow> ieee1212_block list
   \<Rightarrow> error + ieee1212_block list" where
  "detect_ieee1212_leaf_block cap block_offset block_length key parent_p head =
     (if list_ex (\<lambda>entry. offset entry = block_offset) head then Inr head
      else if \<not> malloc_ok cap head then Inl ENOMEM
      else Inr (insert_block_by_offset head
             \<lparr>offset = block_offset, length_b = block_length,
              block_type = IEEE1212_LEAF_BLOCK,
              data_u = Some \<lparr>key_id = key, parent = parent_p\<rparr>\<rparr>))"

definition KEY_TYPE_IMMEDIATE :: nat where "KEY_TYPE_IMMEDIATE = 0"
definition KEY_TYPE_CSR_OFFSET :: nat where "KEY_TYPE_CSR_OFFSET = 1"
definition KEY_TYPE_LEAF :: nat where "KEY_TYPE_LEAF = 2"
definition KEY_TYPE_DIRECTORY :: nat where "KEY_TYPE_DIRECTORY = 3"

definition decode_directory_entry :: "32 word \<Rightarrow> nat \<times> nat \<times> 32 word" where
  \<comment> \<open>\<open>(key_type, key_id, value)\<close>\<close>
  "decode_directory_entry quadlet =
     (unat (drop_bit 30 (quadlet AND 0xc0000000)),
      unat (drop_bit 24 (quadlet AND 0x3f000000)),
      quadlet AND 0x00ffffff)"

text \<open>
  \<^verbatim>\<open>detect_ieee1212_directory_entries\<close> and \<^verbatim>\<open>detect_ieee1212_directory_block\<close> call each
  other.  The first argument bounds the depth of that recursion: a directory block that
  has to be entered when it is 0 gives \<open>None\<close>.  The \<^verbatim>\<open>for\<close> loop over the entries runs
  over the indices \<open>[0..<quadlet_count]\<close>.
\<close>

function detect_ieee1212_directory_entries ::
    "nat \<Rightarrow> rom \<Rightarrow> nat \<Rightarrow> nat \<Rightarrow> nat \<Rightarrow> nat \<Rightarrow> nat option \<Rightarrow> ieee1212_block list
     \<Rightarrow> (error + ieee1212_block list) option"
  and detect_entries_loop ::
    "nat \<Rightarrow> rom \<Rightarrow> nat \<Rightarrow> nat \<Rightarrow> nat \<Rightarrow> nat list \<Rightarrow> nat option \<Rightarrow> ieee1212_block list
     \<Rightarrow> (error + ieee1212_block list) option"
  and detect_ieee1212_directory_block ::
    "nat \<Rightarrow> rom \<Rightarrow> nat \<Rightarrow> nat \<Rightarrow> nat \<Rightarrow> nat \<Rightarrow> nat \<Rightarrow> nat option \<Rightarrow> ieee1212_block list
     \<Rightarrow> (error + ieee1212_block list) option"
where
  "detect_ieee1212_directory_entries depth data len cap directory_offset directory_length
       parent_p head =
     detect_entries_loop depth data len cap (directory_offset + 4)
       [0..<(directory_length - 4) div 4] parent_p head"
| "detect_entries_loop depth data len cap directory_offset [] parent_p head =
     Some (Inr head)"
| "detect_entries_loop depth data len cap directory_offset (i # is) parent_p head =
     (let entry_offset = directory_offset + i * 4;
          quadlet = quadlet_at data entry_offset;
          (key_type, key, val) = decode_directory_entry quadlet
      in if key_type = KEY_TYPE_LEAF \<or> key_type = KEY_TYPE_DIRECTORY then
           (let block_offset = entry_offset + 4 * unat val
            in if block_offset \<ge> len then Some (Inl ENOSPC)
               else
                 (case detect_ieee1212_block_length data len block_offset of
                    Inl err \<Rightarrow> Some (Inl err)
                  | Inr block_length \<Rightarrow>
                      (case (if key_type = KEY_TYPE_LEAF
                             then Some (detect_ieee1212_leaf_block cap block_offset
                                          block_length key parent_p head)
                             else detect_ieee1212_directory_block depth data len cap
                                    block_offset block_length key parent_p head) of
                         None \<Rightarrow> None
                       | Some (Inl err) \<Rightarrow> Some (Inl err)
                       | Some (Inr head') \<Rightarrow>
                           detect_entries_loop depth data len cap directory_offset is
                             parent_p head')))
         else detect_entries_loop depth data len cap directory_offset is parent_p head)"
| "detect_ieee1212_directory_block depth data len cap block_offset block_length key
       parent_p head =
     (if list_ex (\<lambda>entry. offset entry = block_offset) head then Some (Inr head)
      else if \<not> malloc_ok cap head then Some (Inl ENOMEM)
      else
        (case depth of
           0 \<Rightarrow> None
         | Suc depth' \<Rightarrow>
             detect_ieee1212_directory_entries depth' data len cap block_offset
               block_length (Some block_offset)
               (insert_block_by_offset head
                  \<lparr>offset = block_offset, length_b = block_length,
                   block_type = IEEE1212_DIRECTORY_BLOCK,
                   data_u = Some \<lparr>key_id = key, parent = parent_p\<rparr>\<rparr>)))"
  by pat_completeness auto
termination
  by (relation "measures [
      (\<lambda>x. case x of Inl (depth, _) \<Rightarrow> depth | Inr (Inl (depth, _)) \<Rightarrow> depth
                | Inr (Inr (depth, _)) \<Rightarrow> depth),
      (\<lambda>x. case x of Inl _ \<Rightarrow> 2 | Inr (Inl _) \<Rightarrow> 1 | Inr (Inr _) \<Rightarrow> 0),
      (\<lambda>x. case x of Inl _ \<Rightarrow> 0 | Inr (Inl (_, _, _, _, _, is, _)) \<Rightarrow> length is
                | Inr (Inr _) \<Rightarrow> 0)]") auto

definition detect_ieee1212_root_directory_block ::
  "nat \<Rightarrow> rom \<Rightarrow> nat \<Rightarrow> nat \<Rightarrow> nat \<Rightarrow> nat \<Rightarrow> ieee1212_block list
   \<Rightarrow> (error + ieee1212_block list) option" where
  "detect_ieee1212_root_directory_block depth data len cap block_offset block_length head =
     (if \<not> malloc_ok cap head then Some (Inl ENOMEM)
      else detect_ieee1212_directory_entries depth data len cap block_offset block_length
             (Some block_offset)
             (insert_block_by_offset head
                \<lparr>offset = block_offset, length_b = block_length,
                 block_type = IEEE1212_ROOT_DIRECTORY_BLOCK, data_u = None\<rparr>))"

definition detect_ieee1212_blocks ::
  "nat \<Rightarrow> rom \<Rightarrow> nat \<Rightarrow> nat \<Rightarrow> ieee1212_block list
   \<Rightarrow> (error + ieee1212_block list) option" where
  "detect_ieee1212_blocks depth data len cap head =
     (case detect_ieee1212_bus_info_block_length data len 0 of
        Inl err \<Rightarrow> Some (Inl err)
      | Inr block_length \<Rightarrow>
          (case detect_ieee1212_bus_info_block cap 0 block_length head of
             Inl err \<Rightarrow> Some (Inl err)
           | Inr head' \<Rightarrow>
               (case detect_ieee1212_block_length data len (0 + block_length) of
                  Inl err \<Rightarrow> Some (Inl err)
                | Inr block_length' \<Rightarrow>
                    detect_ieee1212_root_directory_block depth data len cap
                      (0 + block_length) block_length' head')))"

fun normalize_blocks :: "ieee1212_block list \<Rightarrow> nat \<Rightarrow> ieee1212_block list" where
  "normalize_blocks [] len = []"
| "normalize_blocks (entry # rest) len =
     (let next_offset = (case rest of [] \<Rightarrow> len | peek # _ \<Rightarrow> offset peek)
      in (if offset entry + length_b entry > next_offset
          then entry\<lparr>length_b := next_offset - offset entry\<rparr>
          else entry) # normalize_blocks rest len)"

text \<open>
  \<^verbatim>\<open>fulfill_orphan_blocks\<close> walks the list with \<^verbatim>\<open>entry\<close> while
  \<^verbatim>\<open>insert_block_by_offset\<close> inserts into the same list from its head.  The cursor
  \<^verbatim>\<open>entry\<close> is the position \<open>k\<close> of the element it points to (an insertion never
  lands before the first element, and the theorems below show that it lands after
  \<^verbatim>\<open>entry\<close>); \<^verbatim>\<open>entry == NULL\<close> is \<open>k\<close> at the end of the list.
\<close>

function fulfill_orphan_loop ::
  "nat \<Rightarrow> nat \<Rightarrow> ieee1212_block list \<Rightarrow> nat \<Rightarrow> error + ieee1212_block list" where
  "fulfill_orphan_loop len cap head k =
     (if k < length head then
        (let entry = head ! k;
             next_offset = (if Suc k < length head then offset (head ! Suc k) else len)
         in if offset entry + length_b entry \<ge> next_offset
            then fulfill_orphan_loop len cap head (Suc k)
            else if \<not> malloc_ok cap head then Inl ENOMEM
            else fulfill_orphan_loop len cap
                   (insert_block_by_offset head
                      \<lparr>offset = offset entry + length_b entry,
                       length_b = next_offset - (offset entry + length_b entry),
                       block_type = ORPHAN_BLOCK, data_u = None\<rparr>) k)
      else Inr head)"
  by pat_completeness auto

termination fulfill_orphan_loop
proof -
  have len_cursor: "length (insert_after_cursor entry cursor rest) = Suc (Suc (length rest))"
    for entry cursor rest
    by (induction rest arbitrary: cursor) auto
  have len_insert: "length (insert_block_by_offset head entry) = Suc (length head)"
    for head entry
    by (simp add: insert_block_by_offset_def len_cursor split: list.splits)
  show ?thesis
    by (relation "measures [\<lambda>(len, cap, head, k). cap - length head,
                            \<lambda>(len, cap, head, k). length head - k]")
       (auto simp: malloc_ok_def len_insert)
qed

definition fulfill_orphan_blocks ::
  "nat \<Rightarrow> nat \<Rightarrow> ieee1212_block list \<Rightarrow> error + ieee1212_block list" where
  "fulfill_orphan_blocks len cap head = fulfill_orphan_loop len cap head 0"

section \<open>Byte order\<close>

text \<open>
  \<^verbatim>\<open>be32toh\<close> is the C library's; it is modelled for a little-endian host, where it
  reverses the four bytes of its argument.
\<close>

definition be32toh :: "32 word \<Rightarrow> 32 word" where
  "be32toh x =
     push_bit 24 (x AND 0xff) OR push_bit 8 (x AND 0xff00) OR
     (drop_bit 8 x AND 0xff00) OR drop_bit 24 x"

definition bus_info_block_is_big_endian :: "rom \<Rightarrow> nat \<Rightarrow> nat \<Rightarrow> bool" where
  \<comment> \<open>\<^verbatim>\<open>((uint32_t *)data)[offset + 1] == 0x1394\<close>\<close>
  "bus_info_block_is_big_endian data len off = (data (off + 1) = 0x1394)"

definition to_host_order :: "rom \<Rightarrow> nat \<Rightarrow> rom" where
  \<comment> \<open>lines 410 to 417 of \<^verbatim>\<open>main\<close>\<close>
  "to_host_order data len =
     (if bus_info_block_is_big_endian data len 0
      then fold (\<lambda>i quadlet. quadlet(i := be32toh (quadlet i))) [0..<len div 4] data
      else data)"

section \<open>Helpers to format content of blocks\<close>

definition LINE_WIDTH :: nat where "LINE_WIDTH = 100"
definition IEEE1212_REGISTER_SPACE_ADDRESS :: nat where
  "IEEE1212_REGISTER_SPACE_ADDRESS = 0xfffff0000000"
definition IEEE1212_CONFIG_ROM_OFFSET :: nat where "IEEE1212_CONFIG_ROM_OFFSET = 0x400"

definition KEY_ID_CSR_DESCRIPTOR :: nat where "KEY_ID_CSR_DESCRIPTOR = 0x01"
definition KEY_ID_CSR_BUS_DEP_INFO :: nat where "KEY_ID_CSR_BUS_DEP_INFO = 0x02"
definition KEY_ID_CSR_VENDOR_INFO :: nat where "KEY_ID_CSR_VENDOR_INFO = 0x03"
definition KEY_ID_CSR_HARDWARE_VERSION :: nat where "KEY_ID_CSR_HARDWARE_VERSION = 0x04"
definition KEY_ID_CSR_MODULE_INFO :: nat where "KEY_ID_CSR_MODULE_INFO = 0x07"
definition KEY_ID_CSR_NODE_CAPS :: nat where "KEY_ID_CSR_NODE_CAPS = 0x0c"
definition KEY_ID_CSR_EUI_64 :: nat where "KEY_ID_CSR_EUI_64 = 0x0d"
definition KEY_ID_CSR_UNIT :: nat where "KEY_ID_CSR_UNIT = 0x11"
definition KEY_ID_CSR_SPECIFIER_ID :: nat where "KEY_ID_CSR_SPECIFIER_ID = 0x12"
definition KEY_ID_CSR_VERSION :: nat where "KEY_ID_CSR_VERSION = 0x13"
definition KEY_ID_CSR_DEP_INFO :: nat where "KEY_ID_CSR_DEP_INFO = 0x14"
definition KEY_ID_CSR_UNIT_LOCATION :: nat where "KEY_ID_CSR_UNIT_LOCATION = 0x15"
definition KEY_ID_CSR_MODEL :: nat where "KEY_ID_CSR_MODEL = 0x17"
definition KEY_ID_CSR_INSTANCE :: nat where "KEY_ID_CSR_INSTANCE = 0x18"
definition KEY_ID_CSR_KEYWORD :: nat where "KEY_ID_CSR_KEYWORD = 0x19"
definition KEY_ID_CSR_FEATURE :: nat where "KEY_ID_CSR_FEATURE = 0x1a"
definition KEY_ID_CSR_MODIFIABLE_DESC :: nat where "KEY_ID_CSR_MODIFIABLE_DESC = 0x1f"
definition KEY_ID_CSR_DIRECTORY_ID :: nat where "KEY_ID_CSR_DIRECTORY_ID = 0x20"

definition INVALID_KEY_ID :: nat where "INVALID_KEY_ID = 0xff"
definition INVALID_KEY_VALUE :: "32 word" where "INVALID_KEY_VALUE = 0xffffffff"
definition UNSPECIFIED_ENTRY_NAME :: string where "UNSPECIFIED_ENTRY_NAME = ''(unspecified)''"

record spec_identifier =
  specifier_id :: "32 word"
  version :: "32 word"

subsection \<open>\<^verbatim>\<open>printf\<close> conversions\<close>

definition digit_char :: "nat \<Rightarrow> char" where
  "digit_char n = ''0123456789abcdef'' ! n"

function show_radix :: "nat \<Rightarrow> nat \<Rightarrow> string" where
  "show_radix b n =
     (if b < 2 \<or> n < b then [digit_char n]
      else show_radix b (n div b) @ [digit_char (n mod b)])"
  by pat_completeness auto
termination
  by (relation "measure (\<lambda>(b, n). n)") auto

definition dec :: "nat \<Rightarrow> string" where
  \<comment> \<open>\<^verbatim>\<open>%d\<close> and \<^verbatim>\<open>%ld\<close>; every value printed by the source is below \<open>2 ^ 31\<close>\<close>
  "dec n = show_radix 10 n"

definition hex :: "nat \<Rightarrow> string" where
  \<comment> \<open>\<^verbatim>\<open>%x\<close> and \<^verbatim>\<open>%lx\<close>\<close>
  "hex n = show_radix 16 n"

definition pad :: "char \<Rightarrow> nat \<Rightarrow> string \<Rightarrow> string" where
  \<comment> \<open>a field width: \<^verbatim>\<open>%3lx\<close> is \<open>pad CHR '' '' 3 (hex n)\<close>, \<^verbatim>\<open>%08x\<close> is
      \<open>pad CHR ''0'' 8 (hex n)\<close>\<close>
  "pad c w s = replicate (w - length s) c @ s"

subsection \<open>Writing into a line buffer\<close>

text \<open>
  A function of the source that writes at \<^verbatim>\<open>buf\<close>, limited by \<^verbatim>\<open>length\<close>, and returns
  the number of characters \<^verbatim>\<open>consumed\<close> is modelled by a function of \<^verbatim>\<open>length\<close> that
  returns the C string it leaves at \<^verbatim>\<open>buf\<close> together with the number it returns.
  \<^verbatim>\<open>snprintf\<close> stores at most \<^verbatim>\<open>size - 1\<close> characters and returns the length of the whole
  text.  The idiom \<^verbatim>\<open>consumed += f(buf + consumed, length - consumed, ...)\<close> is
  \<open>append_at\<close>: the subtraction is done on \<^verbatim>\<open>size_t\<close>, so once \<^verbatim>\<open>consumed\<close> exceeds
  \<^verbatim>\<open>length\<close> the size wraps and the write lands behind the buffer; that run of the program
  is undefined and the model returns \<open>None\<close>.  When an earlier text was cut, the bytes
  written at \<^verbatim>\<open>buf + consumed\<close> lie behind its terminator and the string is unchanged.
\<close>

type_synonym out = "string \<times> nat"

definition snprintf :: "nat \<Rightarrow> string \<Rightarrow> out" where
  "snprintf sz text = (take (sz - 1) text, length text)"

definition append_at :: "nat \<Rightarrow> out \<Rightarrow> (nat \<Rightarrow> out option) \<Rightarrow> out option" where
  "append_at len st f =
     (if len < snd st then None
      else case f (len - snd st) of
             None \<Rightarrow> None
           | Some r \<Rightarrow>
               Some (if snd st = length (fst st) then fst st @ fst r else fst st,
                     snd st + snd r))"

definition print_at :: "nat \<Rightarrow> out \<Rightarrow> string \<Rightarrow> out option" where
  \<comment> \<open>\<^verbatim>\<open>consumed += snprintf(buf + consumed, length - consumed, ...)\<close>\<close>
  "print_at len st text = append_at len st (\<lambda>n. Some (snprintf n text))"

definition format_line_prefix :: "nat \<Rightarrow> nat \<Rightarrow> 32 word \<Rightarrow> bool \<Rightarrow> out option" where
  "format_line_prefix len off quadlet add_delimiter =
     (let st = snprintf len
                 (pad CHR '' '' 3 (hex (off + IEEE1212_CONFIG_ROM_OFFSET)) @ ''  '' @
                  pad CHR ''0'' 8 (hex (unat quadlet)))
      in if add_delimiter then print_at len st ''  '' else Some st)"

definition format_blank_prefix :: "nat \<Rightarrow> out option" where
  \<comment> \<open>\<^verbatim>\<open>memset(buf, ' ', consumed)\<close> overwrites what \<^verbatim>\<open>snprintf\<close> stored and needs
      \<^verbatim>\<open>consumed\<close> bytes and the terminator inside the buffer\<close>
  "format_blank_prefix len =
     (let st = snprintf len
                 (pad CHR '' '' 3 (hex IEEE1212_CONFIG_ROM_OFFSET) @ ''  '' @
                  pad CHR ''0'' 8 (hex 0) @ ''  '')
      in if len \<le> snd st then None else Some (replicate (snd st) CHR '' '', snd st))"

definition format_horizontal_line :: "nat \<Rightarrow> out" where
  "format_horizontal_line len = snprintf len (replicate 65 CHR ''-'')"

definition line_of :: "out option \<Rightarrow> string option" where
  \<comment> \<open>the line that \<^verbatim>\<open>printf("%s\n", buf[i])\<close> prints\<close>
  "line_of r = map_option fst r"

subsection \<open>CRC\<close>

definition crc_step :: "32 word \<Rightarrow> 32 word \<Rightarrow> nat \<Rightarrow> 32 word" where
  \<comment> \<open>the body of the inner loop of \<^verbatim>\<open>compute_itu_t_crc_16\<close>\<close>
  "crc_step crc q shift =
     (let sum = (drop_bit 12 crc XOR drop_bit shift q) AND 0x0000000f
      in (push_bit 4 crc XOR push_bit 12 sum XOR push_bit 5 sum XOR sum) AND 0x0000ffff)"

definition compute_itu_t_crc_16 :: "(nat \<Rightarrow> 32 word) \<Rightarrow> nat \<Rightarrow> 16 word" where
  "compute_itu_t_crc_16 quadlet quadlet_count =
     ucast (fold (\<lambda>i crc. fold (\<lambda>shift crc. crc_step crc (quadlet i) shift)
                             [28, 24, 20, 16, 12, 8, 4, 0] crc)
              [0..<quadlet_count] 0)"

definition format_block_metadata ::
  "nat \<Rightarrow> string \<Rightarrow> (nat \<Rightarrow> 32 word) \<Rightarrow> nat \<Rightarrow> out option" where
  \<comment> \<open>\<^verbatim>\<open>quadlet_count\<close> is never 0 (a block is at least its header), so
      \<^verbatim>\<open>quadlet_count - 1\<close> does not wrap\<close>
  "format_block_metadata len block_name quadlet quadlet_count =
     (let block_length = (ucast (drop_bit 16 (quadlet 0 AND 0xffff0000)) :: 16 word);
          block_crc = (ucast (quadlet 0 AND 0x0000ffff) :: 16 word);
          actual_block_crc = compute_itu_t_crc_16 (\<lambda>i. quadlet (i + 1)) (quadlet_count - 1)
      in do {
        st \<leftarrow> Some (snprintf len (block_name @ ''_length '' @ dec (unat block_length)));
        st \<leftarrow> (if 1 + unat block_length \<noteq> quadlet_count
               then print_at len st ('' (actual length '' @ dec (quadlet_count - 1) @ '')'')
               else Some st);
        st \<leftarrow> print_at len st ('', crc '' @ dec (unat block_crc));
        (if block_crc \<noteq> actual_block_crc
         then print_at len st ('' (should be '' @ dec (unat actual_block_crc) @ '')'')
         else Some st)
      })"

subsection \<open>Key formatters\<close>

text \<open>
  The function pointers of \<^verbatim>\<open>struct key_formatter\<close> are tags that name the function;
  \<open>call_immediate\<close> and \<open>call_leaf\<close> below call the function a tag names.  Every
  directory formatter of the source is \<^verbatim>\<open>format_directory_entries\<close>.
\<close>

datatype immediate_fn =
    P_format_ieee1394_bus_node_capabilities_immediate_value
  | P_format_sbp_logical_unit_number_immediate_value
  | P_format_sbp3_revision_immediate_value
  | P_format_sbp3_plug_control_register_immediate_value
  | P_format_sbp_command_set_immediate_value
  | P_format_sbp_unit_characteristic_immediate_value
  | P_format_sbp_firmware_revision_immediate_value
  | P_format_sbp_reconnect_timeout_immediate_value
  | P_format_sbp3_fast_start_immediate_value
  | P_format_iidc_131_unit_sub_sw_version_immediate_value
  | P_format_iidc2_100_unit_sub_sw_version_immediate_value
  | P_format_dpp_111_command_set_immediate_value
  | P_format_dpp_111_write_transaction_interval_immediate_value
  | P_format_dpp_111_unit_sw_details_immediate_value
  | P_format_iicp_details_immediate_value
  | P_format_iicp_command_set_immediate_value
  | P_format_iicp_command_set_details_immediate_value
  | P_format_iicp_capabilities_immediate_value
  | P_format_unspecified_immediate_value

datatype leaf_fn =
    P_format_csr_descriptor_leaf_content
  | P_format_csr_keyword_leaf_content
  | P_format_csr_unit_location_leaf_content
  | P_format_csr_eui64_leaf_content
  | P_format_unspecified_leaf_content
  | P_format_iidc_104_leaf_content

datatype format_content =
    Content_null
  | Content_immediate immediate_fn
  | Content_leaf leaf_fn
  | Content_directory

record key_formatter =
  key_type_f :: nat
  key_id_f :: nat
  key_id_name :: string
  format_content :: format_content

definition formatter :: "nat \<Rightarrow> nat \<Rightarrow> string \<Rightarrow> format_content \<Rightarrow> key_formatter" where
  \<comment> \<open>an initializer \<^verbatim>\<open>{ key_type, key_id, name, .format_content.x = f }\<close>\<close>
  "formatter t k n c = \<lparr>key_type_f = t, key_id_f = k, key_id_name = n, format_content = c\<rparr>"

definition spec_iana_ipv4 :: spec_identifier where
  "spec_iana_ipv4 = \<lparr>specifier_id = 0x00005e, version = 0x000001\<rparr>"
definition spec_iana_ipv6 :: spec_identifier where
  "spec_iana_ipv6 = \<lparr>specifier_id = 0x00005e, version = 0x000002\<rparr>"
definition spec_incits_sbp :: spec_identifier where
  "spec_incits_sbp = \<lparr>specifier_id = 0x00609e, version = 0x010483\<rparr>"
definition spec_incits_sbp_avc :: spec_identifier where
  "spec_incits_sbp_avc = \<lparr>specifier_id = 0x00609e, version = 0x0105bb\<rparr>"
definition spec_1394ta_avc :: spec_identifier where
  "spec_1394ta_avc = \<lparr>specifier_id = 0x00a02d, version = 0x010001\<rparr>"
definition spec_1394ta_cal :: spec_identifier where
  "spec_1394ta_cal = \<lparr>specifier_id = 0x00a02d, version = 0x010002\<rparr>"
definition spec_1394ta_ehs :: spec_identifier where
  "spec_1394ta_ehs = \<lparr>specifier_id = 0x00a02d, version = 0x010004\<rparr>"
definition spec_1394ta_havi :: spec_identifier where
  "spec_1394ta_havi = \<lparr>specifier_id = 0x00a02d, version = 0x010008\<rparr>"
definition spec_1394ta_vendor_unique :: spec_identifier where
  "spec_1394ta_vendor_unique = \<lparr>specifier_id = 0x00a02d, version = 0x014000\<rparr>"
definition spec_1394ta_vendor_unique_avc :: spec_identifier where
  "spec_1394ta_vendor_unique_avc = \<lparr>specifier_id = 0x00a02d, version = 0x014001\<rparr>"
definition spec_1394ta_iidc_104 :: spec_identifier where
  "spec_1394ta_iidc_104 = \<lparr>specifier_id = 0x00a02d, version = 0x000100\<rparr>"
definition spec_1394ta_iidc_120 :: spec_identifier where
  "spec_1394ta_iidc_120 = \<lparr>specifier_id = 0x00a02d, version = 0x000101\<rparr>"
definition spec_1394ta_iidc_130 :: spec_identifier where
  "spec_1394ta_iidc_130 = \<lparr>specifier_id = 0x00a02d, version = 0x000102\<rparr>"
definition spec_1394ta_iidc2 :: spec_identifier where
  "spec_1394ta_iidc2 = \<lparr>specifier_id = 0x00a02d, version = 0x000110\<rparr>"
definition spec_1394ta_dpp_111 :: spec_identifier where
  "spec_1394ta_dpp_111 = \<lparr>specifier_id = 0x00a02d, version = 0x0a6be2\<rparr>"
definition spec_1394ta_iicp :: spec_identifier where
  "spec_1394ta_iicp = \<lparr>specifier_id = 0x00a02d, version = 0x4b661f\<rparr>"
definition spec_alesis_audio :: spec_identifier where
  "spec_alesis_audio = \<lparr>specifier_id = 0x000595, version = 0x000001\<rparr>"
definition spec_apple_isight_audio :: spec_identifier where
  "spec_apple_isight_audio = \<lparr>specifier_id = 0x000a27, version = 0x000010\<rparr>"
definition spec_apple_isight_factory :: spec_identifier where
  "spec_apple_isight_factory = \<lparr>specifier_id = 0x000a27, version = 0x000011\<rparr>"
definition spec_apple_isight_iris :: spec_identifier where
  "spec_apple_isight_iris = \<lparr>specifier_id = 0x000a27, version = 0x000012\<rparr>"
definition spec_lacie_hid :: spec_identifier where
  "spec_lacie_hid = \<lparr>specifier_id = 0x00d04b, version = 0x484944\<rparr>"

definition csr_key_formatters :: "key_formatter list" where
  "csr_key_formatters =
     [formatter KEY_TYPE_LEAF KEY_ID_CSR_DESCRIPTOR ''descriptor''
        (Content_leaf P_format_csr_descriptor_leaf_content),
      formatter KEY_TYPE_DIRECTORY KEY_ID_CSR_DESCRIPTOR ''descriptor'' Content_directory,
      formatter KEY_TYPE_IMMEDIATE KEY_ID_CSR_BUS_DEP_INFO ''bus dependent info'' Content_null,
      formatter KEY_TYPE_LEAF KEY_ID_CSR_BUS_DEP_INFO ''bus dependent info''
        (Content_leaf P_format_unspecified_leaf_content),
      formatter KEY_TYPE_DIRECTORY KEY_ID_CSR_BUS_DEP_INFO ''bus dependent info''
        Content_directory,
      formatter KEY_TYPE_IMMEDIATE KEY_ID_CSR_VENDOR_INFO ''vendor'' Content_null,
      formatter KEY_TYPE_LEAF KEY_ID_CSR_VENDOR_INFO ''vendor''
        (Content_leaf P_format_unspecified_leaf_content),
      formatter KEY_TYPE_DIRECTORY KEY_ID_CSR_VENDOR_INFO ''vendor'' Content_directory,
      formatter KEY_TYPE_IMMEDIATE KEY_ID_CSR_HARDWARE_VERSION ''hardware version''
        Content_null,
      formatter KEY_TYPE_LEAF KEY_ID_CSR_MODULE_INFO ''module''
        (Content_leaf P_format_csr_eui64_leaf_content),
      formatter KEY_TYPE_DIRECTORY KEY_ID_CSR_MODULE_INFO ''module'' Content_directory,
      formatter KEY_TYPE_LEAF KEY_ID_CSR_EUI_64 ''eui-64''
        (Content_leaf P_format_csr_eui64_leaf_content),
      formatter KEY_TYPE_DIRECTORY KEY_ID_CSR_UNIT ''unit'' Content_directory,
      formatter KEY_TYPE_IMMEDIATE KEY_ID_CSR_SPECIFIER_ID ''specifier id'' Content_null,
      formatter KEY_TYPE_IMMEDIATE KEY_ID_CSR_VERSION ''version'' Content_null,
      formatter KEY_TYPE_IMMEDIATE KEY_ID_CSR_DEP_INFO ''dependent info'' Content_null,
      formatter KEY_TYPE_CSR_OFFSET KEY_ID_CSR_DEP_INFO ''dependent info'' Content_null,
      formatter KEY_TYPE_LEAF KEY_ID_CSR_DEP_INFO ''dependent info''
        (Content_leaf P_format_unspecified_leaf_content),
      formatter KEY_TYPE_DIRECTORY KEY_ID_CSR_DEP_INFO ''dependent info'' Content_directory,
      formatter KEY_TYPE_LEAF KEY_ID_CSR_UNIT_LOCATION ''unit location''
        (Content_leaf P_format_csr_unit_location_leaf_content),
      formatter KEY_TYPE_IMMEDIATE KEY_ID_CSR_MODEL ''model'' Content_null,
      formatter KEY_TYPE_DIRECTORY KEY_ID_CSR_INSTANCE ''instance'' Content_directory,
      formatter KEY_TYPE_LEAF KEY_ID_CSR_KEYWORD ''keyword''
        (Content_leaf P_format_csr_keyword_leaf_content),
      formatter KEY_TYPE_DIRECTORY KEY_ID_CSR_FEATURE ''feature'' Content_directory,
      formatter KEY_TYPE_IMMEDIATE KEY_ID_CSR_DIRECTORY_ID ''directory id'' Content_null]"

definition ieee1394_bus_key_formatters :: "key_formatter list" where
  "ieee1394_bus_key_formatters =
     [formatter KEY_TYPE_IMMEDIATE KEY_ID_CSR_NODE_CAPS ''node capabilities''
        (Content_immediate P_format_ieee1394_bus_node_capabilities_immediate_value)]"

definition incits_sbp_key_formatters :: "key_formatter list" where
  "incits_sbp_key_formatters =
     [formatter KEY_TYPE_LEAF 0x0d ''unit unique id''
        (Content_leaf P_format_csr_eui64_leaf_content),
      formatter KEY_TYPE_IMMEDIATE 0x14 ''logical unit number''
        (Content_immediate P_format_sbp_logical_unit_number_immediate_value),
      formatter KEY_TYPE_CSR_OFFSET 0x14 ''management agent CSR'' Content_null,
      formatter KEY_TYPE_DIRECTORY 0x14 ''logical unit'' Content_directory,
      formatter KEY_TYPE_IMMEDIATE 0x21 ''revision''
        (Content_immediate P_format_sbp3_revision_immediate_value),
      formatter KEY_TYPE_IMMEDIATE 0x32 ''plug control register''
        (Content_immediate P_format_sbp3_plug_control_register_immediate_value),
      formatter KEY_TYPE_IMMEDIATE 0x38 ''command set spec id'' Content_null,
      formatter KEY_TYPE_IMMEDIATE 0x39 ''command set''
        (Content_immediate P_format_sbp_command_set_immediate_value),
      formatter KEY_TYPE_IMMEDIATE 0x3a ''unit char.''
        (Content_immediate P_format_sbp_unit_characteristic_immediate_value),
      formatter KEY_TYPE_IMMEDIATE 0x3b ''command set revision'' Content_null,
      formatter KEY_TYPE_IMMEDIATE 0x3c ''firmware revision''
        (Content_immediate P_format_sbp_firmware_revision_immediate_value),
      formatter KEY_TYPE_IMMEDIATE 0x3d ''reconnect timeout''
        (Content_immediate P_format_sbp_reconnect_timeout_immediate_value),
      formatter KEY_TYPE_IMMEDIATE 0x3e ''fast start''
        (Content_immediate P_format_sbp3_fast_start_immediate_value)]"

definition ta1394_iidc_104_key_formatters :: "key_formatter list" where
  "ta1394_iidc_104_key_formatters =
     [formatter KEY_TYPE_CSR_OFFSET 0x00 ''command_regs_base'' Content_null,
      formatter KEY_TYPE_LEAF 0x01 ''vendor name'' (Content_leaf P_format_iidc_104_leaf_content),
      formatter KEY_TYPE_LEAF 0x02 ''model name'' (Content_leaf P_format_iidc_104_leaf_content)]"

definition ta1394_iidc_131_key_formatters :: "key_formatter list" where
  "ta1394_iidc_131_key_formatters =
     [formatter KEY_TYPE_CSR_OFFSET 0x00 ''command_regs_base'' Content_null,
      formatter KEY_TYPE_LEAF 0x01 ''vendor name'' (Content_leaf P_format_iidc_104_leaf_content),
      formatter KEY_TYPE_LEAF 0x02 ''model name'' (Content_leaf P_format_iidc_104_leaf_content),
      formatter KEY_TYPE_IMMEDIATE 0x38 ''unit sub sw version''
        (Content_immediate P_format_iidc_131_unit_sub_sw_version_immediate_value),
      formatter KEY_TYPE_IMMEDIATE 0x39 ''(reserved)'' Content_null,
      formatter KEY_TYPE_IMMEDIATE 0x3a ''(reserved)'' Content_null,
      formatter KEY_TYPE_IMMEDIATE 0x3b ''(reserved)'' Content_null,
      formatter KEY_TYPE_IMMEDIATE 0x3c ''vendor_unique_info_0'' Content_null,
      formatter KEY_TYPE_IMMEDIATE 0x3d ''vendor_unique_info_1'' Content_null,
      formatter KEY_TYPE_IMMEDIATE 0x3e ''vendor_unique_info_2'' Content_null,
      formatter KEY_TYPE_IMMEDIATE 0x3f ''vendor_unique_info_3'' Content_null]"

definition ta1394_iidc2_100_key_formatters :: "key_formatter list" where
  "ta1394_iidc2_100_key_formatters =
     [formatter KEY_TYPE_CSR_OFFSET 0x00 ''IIDC2Entry'' Content_null,
      formatter KEY_TYPE_LEAF 0x01 ''vendor name'' (Content_leaf P_format_iidc_104_leaf_content),
      formatter KEY_TYPE_LEAF 0x02 ''model name'' (Content_leaf P_format_iidc_104_leaf_content),
      formatter KEY_TYPE_IMMEDIATE 0x38 ''unit sub sw version''
        (Content_immediate P_format_iidc2_100_unit_sub_sw_version_immediate_value),
      formatter KEY_TYPE_IMMEDIATE 0x39 ''(reserved)'' Content_null,
      formatter KEY_TYPE_IMMEDIATE 0x3a ''(reserved)'' Content_null,
      formatter KEY_TYPE_IMMEDIATE 0x3b ''(reserved)'' Content_null,
      formatter KEY_TYPE_IMMEDIATE 0x3c ''vendor_unique_info_0'' Content_null,
      formatter KEY_TYPE_IMMEDIATE 0x3d ''vendor_unique_info_1'' Content_null,
      formatter KEY_TYPE_IMMEDIATE 0x3e ''vendor_unique_info_2'' Content_null,
      formatter KEY_TYPE_IMMEDIATE 0x3f ''vendor_unique_info_3'' Content_null]"

definition ta1394_dpp_111_key_formatters :: "key_formatter list" where
  "ta1394_dpp_111_key_formatters =
     [formatter KEY_TYPE_DIRECTORY 0x14 ''command set directory'' Content_directory,
      formatter KEY_TYPE_IMMEDIATE 0x38 ''command set spec id'' Content_null,
      formatter KEY_TYPE_IMMEDIATE 0x39 ''command set''
        (Content_immediate P_format_dpp_111_command_set_immediate_value),
      formatter KEY_TYPE_IMMEDIATE 0x3a ''command set details'' Content_null,
      formatter KEY_TYPE_CSR_OFFSET 0x3b ''connection CSR'' Content_null,
      formatter KEY_TYPE_IMMEDIATE 0x3c ''write transaction interval''
        (Content_immediate P_format_dpp_111_write_transaction_interval_immediate_value),
      formatter KEY_TYPE_IMMEDIATE 0x3d ''unit sw details''
        (Content_immediate P_format_dpp_111_unit_sw_details_immediate_value)]"

definition ta1394_iicp_key_formatters :: "key_formatter list" where
  "ta1394_iicp_key_formatters =
     [formatter KEY_TYPE_IMMEDIATE 0x38 ''details''
        (Content_immediate P_format_iicp_details_immediate_value),
      formatter KEY_TYPE_IMMEDIATE 0x39 ''command set spec id'' Content_null,
      formatter KEY_TYPE_IMMEDIATE 0x3a ''command set''
        (Content_immediate P_format_iicp_command_set_immediate_value),
      formatter KEY_TYPE_IMMEDIATE 0x3b ''command set details''
        (Content_immediate P_format_iicp_command_set_details_immediate_value),
      formatter KEY_TYPE_CSR_OFFSET 0x3c ''connection CSR'' Content_null,
      formatter KEY_TYPE_IMMEDIATE 0x3d ''capabilities''
        (Content_immediate P_format_iicp_capabilities_immediate_value),
      formatter KEY_TYPE_CSR_OFFSET 0x3e ''interrupt_enable CSR'' Content_null,
      formatter KEY_TYPE_CSR_OFFSET 0x3f ''interrupt_handlr CSR'' Content_null]"

definition apple_isight_audio_key_formatters :: "key_formatter list" where
  "apple_isight_audio_key_formatters =
     [formatter KEY_TYPE_CSR_OFFSET 0x00 ''register file'' Content_null]"

definition apple_isight_iris_key_formatters :: "key_formatter list" where
  "apple_isight_iris_key_formatters =
     [formatter KEY_TYPE_CSR_OFFSET 0x00 ''Iris Status Address register'' Content_null]"

definition find_formatter :: "key_formatter list \<Rightarrow> nat \<Rightarrow> nat \<Rightarrow> key_formatter option" where
  "find_formatter formatters key_type key =
     find (\<lambda>f. key_type_f f = key_type \<and> key_id_f f = key) formatters"

definition spec_entries :: "(string \<times> spec_identifier \<times> key_formatter list) list" where
  \<comment> \<open>\<^verbatim>\<open>spec_entries[]\<close> of \<^verbatim>\<open>detect_key_formatter\<close>: name, identifier, formatters
      (\<^verbatim>\<open>NULL, 0\<close> is the empty table)\<close>
  "spec_entries =
     [(''IPv4 over 1394 (RFC 2734)'', spec_iana_ipv4, []),
      (''IPv6 over 1394 (RFC 3146)'', spec_iana_ipv6, []),
      (''SBP-2'', spec_incits_sbp, incits_sbp_key_formatters),
      (''AV/C over SBP-3'', spec_incits_sbp_avc, incits_sbp_key_formatters),
      (''AV/C'', spec_1394ta_avc, []),
      (''CAL'', spec_1394ta_cal, []),
      (''EHS'', spec_1394ta_ehs, []),
      (''HAVi'', spec_1394ta_havi, []),
      (''Vendor Unique'', spec_1394ta_vendor_unique, []),
      (''Vendor Unique and AV/C'', spec_1394ta_vendor_unique_avc, []),
      (''IIDC 1.04'', spec_1394ta_iidc_104, ta1394_iidc_104_key_formatters),
      (''IIDC 1.20'', spec_1394ta_iidc_120, ta1394_iidc_104_key_formatters),
      (''IIDC 1.30'', spec_1394ta_iidc_130, ta1394_iidc_131_key_formatters),
      (''IIDC2'', spec_1394ta_iidc2, ta1394_iidc2_100_key_formatters),
      (''DPP 1.0'', spec_1394ta_dpp_111, ta1394_dpp_111_key_formatters),
      (''IICP 1.0'', spec_1394ta_iicp, ta1394_iicp_key_formatters),
      (''audio'', spec_alesis_audio, []),
      (''iSight audio unit'', spec_apple_isight_audio, apple_isight_audio_key_formatters),
      (''iSight factory unit'', spec_apple_isight_factory, []),
      (''iSight iris unit'', spec_apple_isight_iris, apple_isight_iris_key_formatters),
      (''HID'', spec_lacie_hid, [])]"

definition default_formatters :: "key_formatter list" where
  "default_formatters =
     [formatter KEY_TYPE_IMMEDIATE INVALID_KEY_ID UNSPECIFIED_ENTRY_NAME
        (Content_immediate P_format_unspecified_immediate_value),
      formatter KEY_TYPE_CSR_OFFSET INVALID_KEY_ID UNSPECIFIED_ENTRY_NAME Content_null,
      formatter KEY_TYPE_LEAF INVALID_KEY_ID UNSPECIFIED_ENTRY_NAME
        (Content_leaf P_format_unspecified_leaf_content),
      formatter KEY_TYPE_DIRECTORY INVALID_KEY_ID UNSPECIFIED_ENTRY_NAME Content_directory]"

definition detect_key_formatter ::
  "spec_identifier \<Rightarrow> nat \<Rightarrow> nat \<Rightarrow> key_formatter \<times> string option" where
  \<comment> \<open>the formatter and \<^verbatim>\<open>*spec_name\<close>, which the callers initialise to \<^verbatim>\<open>NULL\<close>;
      \<^verbatim>\<open>key_type\<close> has two bits, so \<^verbatim>\<open>default_formatters[key_type]\<close> is in range\<close>
  "detect_key_formatter identifier key_type key =
     (let spec_entry = find (\<lambda>(name, ident, formatters). ident = identifier) spec_entries;
          in_spec = (case spec_entry of
                       None \<Rightarrow> None
                     | Some (name, ident, formatters) \<Rightarrow>
                         map_option (\<lambda>f. (f, Some name))
                           (find_formatter formatters key_type key))
      in case in_spec of
           Some r \<Rightarrow> r
         | None \<Rightarrow>
             (case find_formatter ieee1394_bus_key_formatters key_type key of
                Some f \<Rightarrow> (f, None)
              | None \<Rightarrow>
                  (case find_formatter csr_key_formatters key_type key of
                     Some f \<Rightarrow> (f, None)
                   | None \<Rightarrow> (default_formatters ! key_type, None))))"

subsection \<open>Immediate values\<close>

text \<open>
  The argument \<open>v\<close> is the 24-bit \<^verbatim>\<open>value\<close> of the entry.  A formatter that starts with
  \<^verbatim>\<open>consumed = 0\<close> starts from the empty text \<open>([], 0)\<close>.
\<close>

definition flag :: "bool \<Rightarrow> nat" where
  \<comment> \<open>a \<^verbatim>\<open>bool\<close> printed with \<^verbatim>\<open>%d\<close>\<close>
  "flag b = (if b then 1 else 0)"

definition format_ieee1394_bus_node_capabilities_immediate_value ::
  "nat \<Rightarrow> 32 word \<Rightarrow> out option" where
  "format_ieee1394_bus_node_capabilities_immediate_value len v =
     Some (snprintf len ''per IEEE 1394'')"

definition device_types :: "string list" where
  "device_types =
     [''Disk'', ''Tape'', ''Printer'', ''Processor'', ''WORM'', ''CD/DVD'', ''Scanner'', ''MOD'',
      ''Changer'', ''Comm'', ''Prepress'', ''Prepress'', ''RAID'', ''Enclosure'', ''RBC'',
      ''OCRW'', ''Bridge'', ''OSD'', ''ADC-2'']"

definition format_sbp_logical_unit_number_immediate_value ::
  "nat \<Rightarrow> 32 word \<Rightarrow> out option" where
  "format_sbp_logical_unit_number_immediate_value len v =
     (let extended = (drop_bit 23 (v AND 0x800000) \<noteq> 0);
          ordered = unat (drop_bit 22 (v AND 0x400000));
          isoc = (drop_bit 21 (v AND 0x200000) \<noteq> 0);
          device_type = unat (drop_bit 16 (v AND 0x1f));
          logical_unit = unat (v AND 0x00ffff)
      in do {
        st \<leftarrow> (if extended then print_at len ([], 0) '' extended_status 1,''
               else Some ([], 0));
        st \<leftarrow> print_at len st ('' ordered '' @ dec ordered @ '','');
        st \<leftarrow> (if isoc then print_at len st '' isoch 1,'' else Some st);
        (if device_type < length device_types
         then print_at len st (''type '' @ device_types ! device_type @ '','')
         else if logical_unit = 0x1e then print_at len st ''type w.k.LUN,''
         else if logical_unit = 0x1f then print_at len st ''type unknown,''
         else print_at len st (''type '' @ pad CHR ''0'' 2 (hex device_type) @ ''?,''))
      })"

definition format_sbp3_revision_immediate_value :: "nat \<Rightarrow> 32 word \<Rightarrow> out option" where
  "format_sbp3_revision_immediate_value len v =
     (let st = snprintf len (dec (unat v))
      in if v = 0 then print_at len st '' = SBP-2''
         else if v = 1 then print_at len st '' = SBP-3''
         else Some st)"

definition format_sbp3_plug_control_register_immediate_value ::
  "nat \<Rightarrow> 32 word \<Rightarrow> out option" where
  "format_sbp3_plug_control_register_immediate_value len v =
     (let is_output = (drop_bit 5 (v AND 0x20) \<noteq> 0);
          plug_index = unat (v AND 0x1f)
      in Some (snprintf len
           (''plug control register: '' @ (if is_output then ''o'' else ''i'') @
            ''PCR, plug_index '' @ dec plug_index)))"

definition format_sbp_command_set_immediate_value :: "nat \<Rightarrow> 32 word \<Rightarrow> out option" where
  "format_sbp_command_set_immediate_value len v =
     (if v = 0x0104d8
      then Some (snprintf len ''SCSI Primary Commands 2 and related standards'')
      else if v = 0x010001 then Some (snprintf len ''AV/C'')
      else Some ([], 0))"

definition show_half :: "nat \<Rightarrow> string" where
  \<comment> \<open>\<^verbatim>\<open>%g\<close> of \<^verbatim>\<open>0.5 * n\<close> for \<open>n < 256\<close>: the value has at most four significant
      digits, so it is printed exactly and without trailing zeros\<close>
  "show_half n = dec (n div 2) @ (if odd n then ''.5'' else [])"

definition format_sbp_unit_characteristic_immediate_value ::
  "nat \<Rightarrow> 32 word \<Rightarrow> out option" where
  "format_sbp_unit_characteristic_immediate_value len v =
     (let distributed_data = (drop_bit 16 (v AND 0x010000) \<noteq> 0);
          mgt_orb_timeout = unat (drop_bit 8 (v AND 0x00ff00));
          orb_size = unat (v AND 0x0000ff)
      in do {
        st \<leftarrow> (if distributed_data then print_at len ([], 0) ''distrib. data 1, ''
               else Some ([], 0));
        print_at len st
          (''mgt_ORB_timeout '' @ show_half mgt_orb_timeout @ ''s, ORB_size '' @
           dec orb_size @ '' quadlets'')
      })"

definition format_sbp_firmware_revision_immediate_value :: "nat \<Rightarrow> 32 word \<Rightarrow> out option" where
  "format_sbp_firmware_revision_immediate_value len v =
     Some (snprintf len (pad CHR ''0'' 6 (hex (unat v))))"

definition format_sbp_reconnect_timeout_immediate_value :: "nat \<Rightarrow> 32 word \<Rightarrow> out option" where
  "format_sbp_reconnect_timeout_immediate_value len v =
     (let max_reconnect_hold = 1 + unat (v AND 0x00ffff)
      in Some (snprintf len
           (''reconnect timeout: max_reconnect_hold '' @ dec max_reconnect_hold @ ''s'')))"

definition format_sbp3_fast_start_immediate_value :: "nat \<Rightarrow> 32 word \<Rightarrow> out option" where
  "format_sbp3_fast_start_immediate_value len v =
     (let max_payload = unat (drop_bit 8 (v AND 0x00ff00));
          fast_start_offset = unat (v AND 0x0000ff)
      in do {
        st \<leftarrow> (if max_payload > 0
               then print_at len ([], 0)
                      ('' max_payload '' @ dec (unat (push_bit 2 (of_nat max_payload :: 32 word)))
                       @ '' bytes,'')
               else print_at len ([], 0) '' max_payload per max_rec,'');
        print_at len st ('' offset '' @ dec fast_start_offset)
      })"

definition format_iidc_131_unit_sub_sw_version_immediate_value ::
  "nat \<Rightarrow> 32 word \<Rightarrow> out option" where
  "format_iidc_131_unit_sub_sw_version_immediate_value len v =
     Some (snprintf len (''v1.3'' @ dec (unat (drop_bit 4 v))))"

definition format_iidc2_100_unit_sub_sw_version_immediate_value ::
  "nat \<Rightarrow> 32 word \<Rightarrow> out option" where
  "format_iidc2_100_unit_sub_sw_version_immediate_value len v =
     (let major = unat (drop_bit 16 v);
          minor = unat (drop_bit 8 v AND 0xff);
          micro = unat (v AND 0xff)
      in Some (snprintf len (''v'' @ dec major @ ''.'' @ dec minor @ ''.'' @ dec micro)))"

definition format_dpp_111_command_set_immediate_value :: "nat \<Rightarrow> 32 word \<Rightarrow> out option" where
  "format_dpp_111_command_set_immediate_value len v =
     (if v = 0xb081f2 then Some (snprintf len ''DPC'')
      else if v = 0x020000 then Some (snprintf len ''FTC'')
      else Some ([], 0))"

definition format_dpp_111_write_transaction_interval_immediate_value ::
  "nat \<Rightarrow> 32 word \<Rightarrow> out option" where
  "format_dpp_111_write_transaction_interval_immediate_value len v =
     Some (snprintf len (dec (unat v) @ ''ms''))"

definition format_dpp_111_unit_sw_details_immediate_value ::
  "nat \<Rightarrow> 32 word \<Rightarrow> out option" where
  "format_dpp_111_unit_sw_details_immediate_value len v =
     (let major = unat (drop_bit 20 (v AND 0x00f00000));
          minor = unat (drop_bit 16 (v AND 0x000f0000));
          micro = unat (drop_bit 12 (v AND 0x0000f000));
          sdu_write_order = (v AND 1 \<noteq> 0)
      in Some (snprintf len
           (''v'' @ dec major @ ''.'' @ dec minor @ ''.'' @ dec micro @
            '', sdu_write_order '' @ dec (flag sdu_write_order))))"

definition format_iicp_details_immediate_value :: "nat \<Rightarrow> 32 word \<Rightarrow> out option" where
  "format_iicp_details_immediate_value len v =
     (let major = unat (drop_bit 20 (v AND 0xf00000) AND 0xf) * 10 +
                  unat (drop_bit 16 (v AND 0x0f0000) AND 0xf);
          minor = unat (drop_bit 12 (v AND 0x00f000) AND 0xf) * 10 +
                  unat (drop_bit 8 (v AND 0x000f00) AND 0xf)
      in Some (snprintf len (''v'' @ dec major @ ''.'' @ dec minor)))"

definition format_iicp_command_set_immediate_value :: "nat \<Rightarrow> 32 word \<Rightarrow> out option" where
  "format_iicp_command_set_immediate_value len v =
     (if v = 0x4b661f then Some (snprintf len ''IICP only'')
      else if v = 0xc27f10 then Some (snprintf len ''IICP488'')
      else Some ([], 0))"

definition format_iicp_command_set_details_immediate_value ::
  "nat \<Rightarrow> 32 word \<Rightarrow> out option" where
  "format_iicp_command_set_details_immediate_value len v =
     (let major = unat (drop_bit 20 (v AND 0xf00000) AND 0xf) * 10 +
                  unat (drop_bit 16 (v AND 0x0f0000) AND 0xf);
          minor = unat (drop_bit 12 (v AND 0x00f000) AND 0xf) * 10 +
                  unat (drop_bit 8 (v AND 0x000f00) AND 0xf)
      in Some (snprintf len (''v'' @ dec major @ ''.'' @ dec minor)))"

definition format_iicp_capabilities_immediate_value :: "nat \<Rightarrow> 32 word \<Rightarrow> out option" where
  "format_iicp_capabilities_immediate_value len v =
     (let reserved_high_proto = unat (drop_bit 16 (v AND 0xff0000));
          reserved_iicp = unat (drop_bit 6 (v AND 0x00ffc0));
          ccli = unat (drop_bit 5 (v AND 0x000020));
          cmgr = unat (drop_bit 4 (v AND 0x000010));
          max_int_length_exponent = unat (v AND 0x00000f);
          st = snprintf len
                 (''hi proto '' @ dec reserved_high_proto @ '', IICP '' @ dec reserved_iicp @
                  '', ccli '' @ dec ccli @ '', cmgr '' @ dec cmgr)
      in if max_int_length_exponent > 0
         then print_at len st
                (''  maxIntLength '' @ dec (2 * 2 ^ max_int_length_exponent) @ '' bytes'')
         else print_at len st ''  maxIntLength -'')"

definition format_unspecified_immediate_value :: "nat \<Rightarrow> 32 word \<Rightarrow> out option" where
  "format_unspecified_immediate_value len v = Some (snprintf len ''(immediate value)'')"

fun call_immediate :: "immediate_fn \<Rightarrow> nat \<Rightarrow> 32 word \<Rightarrow> out option" where
  "call_immediate P_format_ieee1394_bus_node_capabilities_immediate_value =
     format_ieee1394_bus_node_capabilities_immediate_value"
| "call_immediate P_format_sbp_logical_unit_number_immediate_value =
     format_sbp_logical_unit_number_immediate_value"
| "call_immediate P_format_sbp3_revision_immediate_value =
     format_sbp3_revision_immediate_value"
| "call_immediate P_format_sbp3_plug_control_register_immediate_value =
     format_sbp3_plug_control_register_immediate_value"
| "call_immediate P_format_sbp_command_set_immediate_value =
     format_sbp_command_set_immediate_value"
| "call_immediate P_format_sbp_unit_characteristic_immediate_value =
     format_sbp_unit_characteristic_immediate_value"
| "call_immediate P_format_sbp_firmware_revision_immediate_value =
     format_sbp_firmware_revision_immediate_value"
| "call_immediate P_format_sbp_reconnect_timeout_immediate_value =
     format_sbp_reconnect_timeout_immediate_value"
| "call_immediate P_format_sbp3_fast_start_immediate_value =
     format_sbp3_fast_start_immediate_value"
| "call_immediate P_format_iidc_131_unit_sub_sw_version_immediate_value =
     format_iidc_131_unit_sub_sw_version_immediate_value"
| "call_immediate P_format_iidc2_100_unit_sub_sw_version_immediate_value =
     format_iidc2_100_unit_sub_sw_version_immediate_value"
| "call_immediate P_format_dpp_111_command_set_immediate_value =
     format_dpp_111_command_set_immediate_value"
| "call_immediate P_format_dpp_111_write_transaction_interval_immediate_value =
     format_dpp_111_write_transaction_interval_immediate_value"
| "call_immediate P_format_dpp_111_unit_sw_details_immediate_value =
     format_dpp_111_unit_sw_details_immediate_value"
| "call_immediate P_format_iicp_details_immediate_value =
     format_iicp_details_immediate_value"
| "call_immediate P_format_iicp_command_set_immediate_value =
     format_iicp_command_set_immediate_value"
| "call_immediate P_format_iicp_command_set_details_immediate_value =
     format_iicp_command_set_details_immediate_value"
| "call_immediate P_format_iicp_capabilities_immediate_value =
     format_iicp_capabilities_immediate_value"
| "call_immediate P_format_unspecified_immediate_value =
     format_unspecified_immediate_value"

subsection \<open>Directory entries\<close>

definition format_entry_spec_name :: "nat \<Rightarrow> string option \<Rightarrow> out" where
  "format_entry_spec_name len spec_name =
     (case spec_name of Some name \<Rightarrow> snprintf len (name @ '' '') | None \<Rightarrow> ([], 0))"

definition immediate_of :: "format_content \<Rightarrow> immediate_fn option" where
  \<comment> \<open>\<^verbatim>\<open>formatter->format_content.immediate\<close>; only formatters of immediate entries get
      here, and theirs is this member or \<^verbatim>\<open>NULL\<close>\<close>
  "immediate_of c = (case c of Content_immediate f \<Rightarrow> Some f | _ \<Rightarrow> None)"

definition format_immediate_entry ::
  "nat \<Rightarrow> nat \<Rightarrow> 32 word \<Rightarrow> string option \<Rightarrow> key_formatter \<Rightarrow> out option" where
  "format_immediate_entry len off val spec_name fmt =
     do {
       st \<leftarrow> Some (format_entry_spec_name len spec_name);
       st \<leftarrow> (if key_id_f fmt \<noteq> INVALID_KEY_ID then print_at len st (key_id_name fmt)
              else Some st);
       (case immediate_of (format_content fmt) of
          None \<Rightarrow> Some st
        | Some f \<Rightarrow>
            do {
              st \<leftarrow> (if key_id_f fmt \<noteq> INVALID_KEY_ID then print_at len st '': ''
                     else Some st);
              append_at len st (\<lambda>n. call_immediate f n val)
            })
     }"

definition format_csr_offset_entry ::
  "nat \<Rightarrow> nat \<Rightarrow> 32 word \<Rightarrow> string option \<Rightarrow> key_formatter \<Rightarrow> out option" where
  "format_csr_offset_entry len off val spec_name fmt =
     (let csr_offset = IEEE1212_REGISTER_SPACE_ADDRESS + 4 * unat val
      in do {
        st \<leftarrow> Some (snprintf len ''--> '');
        st \<leftarrow> append_at len st (\<lambda>n. Some (format_entry_spec_name n spec_name));
        st \<leftarrow> (if key_id_f fmt \<noteq> INVALID_KEY_ID
               then print_at len st (key_id_name fmt @ '' '')
               else print_at len st ''CSR '');
        print_at len st (''at '' @ pad CHR ''0'' 12 (hex csr_offset))
      })"

definition format_leaf_entry ::
  "nat \<Rightarrow> nat \<Rightarrow> 32 word \<Rightarrow> string option \<Rightarrow> key_formatter \<Rightarrow> out option" where
  "format_leaf_entry len off val spec_name fmt =
     (let leaf_offset = IEEE1212_CONFIG_ROM_OFFSET + off + 4 * unat val
      in do {
        st \<leftarrow> Some (snprintf len ''--> '');
        st \<leftarrow> append_at len st (\<lambda>n. Some (format_entry_spec_name n spec_name));
        st \<leftarrow> (if key_id_f fmt \<noteq> INVALID_KEY_ID
               then print_at len st (key_id_name fmt @ '' '')
               else Some st);
        print_at len st (''leaf at '' @ hex leaf_offset)
      })"

definition format_directory_entry ::
  "nat \<Rightarrow> nat \<Rightarrow> 32 word \<Rightarrow> string option \<Rightarrow> key_formatter \<Rightarrow> out option" where
  "format_directory_entry len off val spec_name fmt =
     (let directory_offset = IEEE1212_CONFIG_ROM_OFFSET + off + 4 * unat val
      in do {
        st \<leftarrow> Some (snprintf len ''--> '');
        st \<leftarrow> append_at len st (\<lambda>n. Some (format_entry_spec_name n spec_name));
        st \<leftarrow> (if key_id_f fmt \<noteq> INVALID_KEY_ID
               then print_at len st (key_id_name fmt @ '' '')
               else Some st);
        print_at len st (''directory at '' @ hex directory_offset)
      })"

definition format_entry ::
  "nat \<Rightarrow> nat \<Rightarrow> nat \<Rightarrow> 32 word \<Rightarrow> string option \<Rightarrow> key_formatter \<Rightarrow> out option" where
  \<comment> \<open>the table \<^verbatim>\<open>format_entry[]\<close> of \<^verbatim>\<open>format_directory_entries\<close>, indexed by the two
      bits of \<^verbatim>\<open>key_type\<close>\<close>
  "format_entry key_type =
     (if key_type = KEY_TYPE_IMMEDIATE then format_immediate_entry
      else if key_type = KEY_TYPE_CSR_OFFSET then format_csr_offset_entry
      else if key_type = KEY_TYPE_LEAF then format_leaf_entry
      else format_directory_entry)"

definition format_directory_entry_line ::
  "nat \<Rightarrow> nat \<Rightarrow> (nat \<Rightarrow> 32 word) \<Rightarrow> spec_identifier \<Rightarrow> nat \<Rightarrow> string option" where
  \<comment> \<open>the body of the \<^verbatim>\<open>for\<close> loop of \<^verbatim>\<open>format_directory_entries\<close>: line \<^verbatim>\<open>buf[i]\<close>\<close>
  "format_directory_entry_line len directory_offset quadlet identifier i =
     (let off = directory_offset + i * 4;
          (key_type, key, val) = decode_directory_entry (quadlet i);
          (fmt, spec_name) = detect_key_formatter identifier key_type key
      in line_of (do {
           st \<leftarrow> format_line_prefix len off (quadlet i) True;
           append_at len st (\<lambda>n. format_entry key_type n off val spec_name fmt)
         }))"

fun those_lines :: "string option list \<Rightarrow> string list option" where
  \<comment> \<open>the lines of a block, none if writing any of them is undefined\<close>
  "those_lines [] = Some []"
| "those_lines (None # ls) = None"
| "those_lines (Some l # ls) = map_option ((#) l) (those_lines ls)"

definition block_header_line ::
  "nat \<Rightarrow> nat \<Rightarrow> string \<Rightarrow> (nat \<Rightarrow> 32 word) \<Rightarrow> nat \<Rightarrow> string option" where
  \<comment> \<open>the header line of a block: \<^verbatim>\<open>consumed = format_line_prefix(buf, length, offset,
      quadlet[0], true); format_block_metadata(buf + consumed, length - consumed, name,
      quadlet, quadlet_count)\<close>, which \<^verbatim>\<open>format_directory_entries\<close> writes with the name
      \<^verbatim>\<open>"directory"\<close> and \<^verbatim>\<open>format_leaf_block\<close> with the name \<^verbatim>\<open>"leaf"\<close>\<close>
  "block_header_line len off block_name quadlet quadlet_count =
     line_of (do {
       st \<leftarrow> format_line_prefix len off (quadlet 0) True;
       append_at len st (\<lambda>n. format_block_metadata n block_name quadlet quadlet_count)
     })"

definition format_directory_entries ::
  "nat \<Rightarrow> nat \<Rightarrow> (nat \<Rightarrow> 32 word) \<Rightarrow> nat \<Rightarrow> spec_identifier \<Rightarrow> string list option" where
  \<comment> \<open>the lines \<^verbatim>\<open>buf[0]\<close> to \<^verbatim>\<open>buf[quadlet_count - 1]\<close>, as many as the function returns\<close>
  "format_directory_entries len directory_offset quadlet quadlet_count identifier =
     map_option (take quadlet_count)
       (those_lines
          (block_header_line len directory_offset ''directory'' quadlet quadlet_count #
           map (format_directory_entry_line len directory_offset quadlet identifier)
             [1..<quadlet_count]))"

subsection \<open>Specifier id and version of the enclosing directories\<close>

definition accumulate_entry :: "32 word \<Rightarrow> spec_identifier \<Rightarrow> spec_identifier" where
  \<comment> \<open>the \<^verbatim>\<open>switch (key_id)\<close> of the walk; the case of \<^verbatim>\<open>KEY_ID_CSR_VENDOR_INFO\<close> falls
      through to \<^verbatim>\<open>default: break\<close>\<close>
  "accumulate_entry quadlet identifier =
     (let (key_type, key, val) = decode_directory_entry quadlet
      in if key_type = KEY_TYPE_IMMEDIATE then
           (if key = KEY_ID_CSR_SPECIFIER_ID then
              (if specifier_id identifier = INVALID_KEY_VALUE
               then identifier\<lparr>specifier_id := val\<rparr> else identifier)
            else if key = KEY_ID_CSR_VERSION then
              (if version identifier = INVALID_KEY_VALUE
               then identifier\<lparr>version := val\<rparr> else identifier)
            else if key = KEY_ID_CSR_VENDOR_INFO then
              (if specifier_id identifier = INVALID_KEY_VALUE
               then identifier\<lparr>specifier_id := val\<rparr> else identifier)
            else identifier)
         else identifier)"

definition content :: "rom \<Rightarrow> ieee1212_block \<Rightarrow> nat \<Rightarrow> 32 word" where
  \<comment> \<open>\<^verbatim>\<open>(const uint32_t *)block->content\<close>, indexed\<close>
  "content data block i = quadlet_at data (offset block + 4 * i)"

definition accumulate_block ::
  "rom \<Rightarrow> ieee1212_block \<Rightarrow> spec_identifier \<Rightarrow> spec_identifier" where
  \<comment> \<open>the \<^verbatim>\<open>for\<close> loop over the entries of \<^verbatim>\<open>base\<close>\<close>
  "accumulate_block data base identifier =
     fold (\<lambda>i. accumulate_entry (content data base i)) [1..<length_b base div 4] identifier"

definition block_at :: "ieee1212_block list \<Rightarrow> nat \<Rightarrow> ieee1212_block option" where
  \<comment> \<open>the block a pointer points to\<close>
  "block_at head p = find (\<lambda>b. offset b = p) head"

text \<open>
  The loop \<^verbatim>\<open>while (base != NULL)\<close>, which \<^verbatim>\<open>format_leaf_block\<close> and
  \<^verbatim>\<open>format_directory_block\<close> both contain.  The first argument bounds the number of
  blocks it visits; \<open>None\<close> says that the bound was reached, that \<^verbatim>\<open>base\<close> points to no
  block, or that the parent of a directory was never set.
\<close>

fun accumulate_spec_identifier ::
  "nat \<Rightarrow> rom \<Rightarrow> ieee1212_block list \<Rightarrow> nat option \<Rightarrow> spec_identifier
   \<Rightarrow> spec_identifier option" where
  "accumulate_spec_identifier bound data head None identifier = Some identifier"
| "accumulate_spec_identifier 0 data head (Some p) identifier = None"
| "accumulate_spec_identifier (Suc bound) data head (Some p) identifier =
     (case block_at head p of
        None \<Rightarrow> None
      | Some base \<Rightarrow>
          (if block_type base = IEEE1212_DIRECTORY_BLOCK then
             (case data_u base of
                None \<Rightarrow> None
              | Some d \<Rightarrow>
                  accumulate_spec_identifier bound data head (parent d)
                    (accumulate_block data base identifier))
           else
             accumulate_spec_identifier bound data head None
               (accumulate_block data base identifier)))"

definition unset_identifier :: spec_identifier where
  "unset_identifier = \<lparr>specifier_id = INVALID_KEY_VALUE, version = INVALID_KEY_VALUE\<rparr>"

subsection \<open>Leaf contents\<close>

definition raw_lines :: "nat \<Rightarrow> nat \<Rightarrow> (nat \<Rightarrow> 32 word) \<Rightarrow> nat \<Rightarrow> string list option" where
  \<comment> \<open>\<^verbatim>\<open>for (i = 0; i < quadlet_count; ++i) format_line_prefix(buf[i], length,
      offset + i * 4, quadlet[i], false)\<close>: the body of
      \<^verbatim>\<open>format_csr_icon_descriptor_leaf_content\<close>,
      \<^verbatim>\<open>format_csr_unspecified_descriptor_leaf_content\<close> and
      \<^verbatim>\<open>format_unspecified_leaf_content\<close>\<close>
  "raw_lines len off quadlet quadlet_count =
     those_lines
       (map (\<lambda>i. line_of (format_line_prefix len (off + i * 4) (quadlet i) False))
          [0..<quadlet_count])"

definition letter :: "32 word \<Rightarrow> nat \<Rightarrow> nat" where
  \<comment> \<open>\<^verbatim>\<open>(quadlet[i] >> (24 - j * 8)) & 0xff\<close>\<close>
  "letter q j = unat (drop_bit (24 - j * 8) q AND 0xff)"

fun print_letters :: "nat \<Rightarrow> out \<Rightarrow> 32 word \<Rightarrow> nat list \<Rightarrow> out option" where
  \<comment> \<open>the loop over \<^verbatim>\<open>j\<close> that prints every letter that is not NUL\<close>
  "print_letters len st q [] = Some st"
| "print_letters len st q (j # js) =
     (if letter q j \<noteq> 0
      then do { st' \<leftarrow> print_at len st [char_of (letter q j)]; print_letters len st' q js }
      else print_letters len st q js)"

definition text_quadlet_line :: "nat \<Rightarrow> nat \<Rightarrow> 32 word \<Rightarrow> string option" where
  \<comment> \<open>one line of text, as \<^verbatim>\<open>format_csr_textual_descriptor_leaf_content\<close> and
      \<^verbatim>\<open>format_iidc_104_leaf_content\<close> write it\<close>
  "text_quadlet_line len off q =
     line_of (do {
       st \<leftarrow> format_line_prefix len off q True;
       (if q > 0 then do {
          st \<leftarrow> print_at len st ''\"'';
          st \<leftarrow> print_letters len st q [0, 1, 2, 3];
          print_at len st ''\"''
        } else Some st)
     })"

definition format_csr_textual_descriptor_leaf_content ::
  "nat \<Rightarrow> nat \<Rightarrow> (nat \<Rightarrow> 32 word) \<Rightarrow> nat \<Rightarrow> string list option" where
  "format_csr_textual_descriptor_leaf_content len off quadlet quadlet_count =
     (if quadlet_count < 2 then Some []
      else
        (let width = unat (drop_bit 28 (quadlet 0));
             character_set = unat (drop_bit 16 (quadlet 0 AND 0x0fff0000));
             language = unat (quadlet 0 AND 0x0000ffff)
         in those_lines
              (line_of (do {
                 st \<leftarrow> format_line_prefix len off (quadlet 0) True;
                 (if character_set = 0 then print_at len st ''minimal ASCII''
                  else print_at len st
                         (''width '' @ dec width @ '', character_set '' @ dec character_set @
                          '', language '' @ dec language))
               }) #
               map (\<lambda>i. text_quadlet_line len (off + i * 4) (quadlet i)) [1..<quadlet_count])))"

definition format_csr_descriptor_leaf_content ::
  "nat \<Rightarrow> nat \<Rightarrow> (nat \<Rightarrow> 32 word) \<Rightarrow> nat \<Rightarrow> string list option" where
  \<comment> \<open>\<^verbatim>\<open>spec_id = (quadlet[0] & CSR_SPEC_MASK) & CSR_SPEC_SHIFT\<close>, with the shift count 0;
      \<^verbatim>\<open>desc_type_name\<close> has 64 bytes\<close>
  "format_csr_descriptor_leaf_content len off quadlet quadlet_count =
     (if quadlet_count < 1 then Some []
      else
        (let desc_type = unat (drop_bit 24 (quadlet 0 AND 0xff000000));
             spec_id = unat ((quadlet 0 AND 0x00ffffff) AND 0);
             desc_type_name =
               fst (snprintf 64
                 (if desc_type = 0x00 then ''textual descriptor''
                  else if desc_type = 0x01 then ''icon descriptor''
                  else ''descriptor_type '' @ pad CHR ''0'' 2 (hex desc_type) @
                       '', specifier_ID '' @ hex spec_id))
         in do {
           l \<leftarrow> line_of (do {
                  st \<leftarrow> format_line_prefix len off (quadlet 0) True;
                  print_at len st desc_type_name
                });
           ls \<leftarrow> (if desc_type = 0x00
                  then format_csr_textual_descriptor_leaf_content len (off + 4)
                         (\<lambda>i. quadlet (i + 1)) (quadlet_count - 1)
                  else raw_lines len (off + 4) (\<lambda>i. quadlet (i + 1)) (quadlet_count - 1));
           Some (l # ls)
         }))"

fun print_keywords :: "nat \<Rightarrow> out \<Rightarrow> bool \<Rightarrow> 32 word \<Rightarrow> nat list \<Rightarrow> out option" where
  \<comment> \<open>the loop over \<^verbatim>\<open>j\<close> of \<^verbatim>\<open>format_csr_keyword_leaf_content\<close>; \<open>not_last\<close> is
      \<^verbatim>\<open>i < quadlet_count - 1\<close>, and the last case is the \<^verbatim>\<open>break\<close>\<close>
  "print_keywords len st not_last q [] = Some st"
| "print_keywords len st not_last q (j # js) =
     (if letter q j \<noteq> 0
      then do { st' \<leftarrow> print_at len st [char_of (letter q j)]; print_keywords len st' not_last q js }
      else if not_last
      then do { st' \<leftarrow> print_at len st ''\" \"''; print_keywords len st' not_last q js }
      else Some st)"

definition format_csr_keyword_leaf_content ::
  "nat \<Rightarrow> nat \<Rightarrow> (nat \<Rightarrow> 32 word) \<Rightarrow> nat \<Rightarrow> string list option" where
  "format_csr_keyword_leaf_content len off quadlet quadlet_count =
     those_lines
       (map (\<lambda>i. line_of (do {
                st \<leftarrow> format_line_prefix len (off + 4 * i) (quadlet i) True;
                (if quadlet i > 0 then do {
                   st \<leftarrow> print_at len st ''\"'';
                   st \<leftarrow> print_keywords len st (i < quadlet_count - 1) (quadlet i) [0, 1, 2, 3];
                   print_at len st ''\"''
                 } else Some st)
              }))
          [0..<quadlet_count])"

definition u64 :: "32 word \<Rightarrow> 32 word \<Rightarrow> nat" where
  \<comment> \<open>\<^verbatim>\<open>(((uint64_t)hi) << 32) | lo\<close>\<close>
  "u64 hi lo = unat hi * 2 ^ 32 + unat lo"

definition format_csr_unit_location_leaf_content ::
  "nat \<Rightarrow> nat \<Rightarrow> (nat \<Rightarrow> 32 word) \<Rightarrow> nat \<Rightarrow> string list option" where
  "format_csr_unit_location_leaf_content len off quadlet quadlet_count =
     (if quadlet_count < 4 then Some []
      else those_lines
        [line_of (do {
           st \<leftarrow> format_line_prefix len off (quadlet 0) True;
           print_at len st
             (''base_address '' @ pad CHR ''0'' 16 (hex (u64 (quadlet 0) (quadlet 1))))
         }),
         line_of (format_line_prefix len (off + 4) (quadlet 1) False),
         line_of (do {
           st \<leftarrow> format_line_prefix len (off + 8) (quadlet 2) True;
           print_at len st
             (''upper_bound '' @ pad CHR ''0'' 16 (hex (u64 (quadlet 2) (quadlet 3))))
         }),
         line_of (format_line_prefix len (off + 12) (quadlet 3) False)])"

definition eui64_lines :: "nat \<Rightarrow> nat \<Rightarrow> 32 word \<Rightarrow> 32 word \<Rightarrow> string option list" where
  \<comment> \<open>the company id line and the device id line, written alike by
      \<^verbatim>\<open>format_csr_eui64_leaf_content\<close> and \<^verbatim>\<open>format_bus_info_block\<close>\<close>
  "eui64_lines len off q0 q1 =
     [line_of (do {
        st \<leftarrow> format_line_prefix len off q0 True;
        print_at len st
          (''company_id '' @ pad CHR ''0'' 6 (hex (unat (drop_bit 8 (q0 AND 0xffffff00)))) @
           ''     | '')
      }),
      line_of (do {
        st \<leftarrow> format_line_prefix len (off + 4) q1 True;
        print_at len st
          (''device_id '' @ pad CHR ''0'' 10 (hex (u64 (q0 AND 0x000000ff) q1)) @
           ''  | EUI-64 '' @ pad CHR ''0'' 16 (hex (u64 q0 q1)))
      })]"

definition format_csr_eui64_leaf_content ::
  "nat \<Rightarrow> nat \<Rightarrow> (nat \<Rightarrow> 32 word) \<Rightarrow> nat \<Rightarrow> string list option" where
  "format_csr_eui64_leaf_content len off quadlet quadlet_count =
     (if quadlet_count < 2 then Some []
      else those_lines (eui64_lines len off (quadlet 0) (quadlet 1)))"

definition format_unspecified_leaf_content ::
  "nat \<Rightarrow> nat \<Rightarrow> (nat \<Rightarrow> 32 word) \<Rightarrow> nat \<Rightarrow> string list option" where
  "format_unspecified_leaf_content len off quadlet quadlet_count =
     raw_lines len off quadlet quadlet_count"

definition format_iidc_104_leaf_content ::
  "nat \<Rightarrow> nat \<Rightarrow> (nat \<Rightarrow> 32 word) \<Rightarrow> nat \<Rightarrow> string list option" where
  \<comment> \<open>the first loop writes two lines whatever \<^verbatim>\<open>quadlet_count\<close> is\<close>
  "format_iidc_104_leaf_content len off quadlet quadlet_count =
     those_lines
       (map (\<lambda>i. line_of (format_line_prefix len (off + i * 4) (quadlet i) False)) [0..<2] @
        map (\<lambda>i. text_quadlet_line len (off + i * 4) (quadlet i)) [2..<quadlet_count])"

fun call_leaf ::
  "leaf_fn \<Rightarrow> nat \<Rightarrow> nat \<Rightarrow> (nat \<Rightarrow> 32 word) \<Rightarrow> nat \<Rightarrow> string list option" where
  "call_leaf P_format_csr_descriptor_leaf_content = format_csr_descriptor_leaf_content"
| "call_leaf P_format_csr_keyword_leaf_content = format_csr_keyword_leaf_content"
| "call_leaf P_format_csr_unit_location_leaf_content = format_csr_unit_location_leaf_content"
| "call_leaf P_format_csr_eui64_leaf_content = format_csr_eui64_leaf_content"
| "call_leaf P_format_unspecified_leaf_content = format_unspecified_leaf_content"
| "call_leaf P_format_iidc_104_leaf_content = format_iidc_104_leaf_content"

subsection \<open>Blocks\<close>

definition title_line :: "nat \<Rightarrow> string option \<Rightarrow> string \<Rightarrow> string option" where
  \<comment> \<open>a blank prefix, the name of the specification if there is one, and a title\<close>
  "title_line len spec_name title =
     line_of (do {
       st \<leftarrow> format_blank_prefix len;
       st \<leftarrow> (case spec_name of
                Some name \<Rightarrow> print_at len st (name @ '' '')
              | None \<Rightarrow> Some st);
       print_at len st title
     })"

definition rule_line :: "nat \<Rightarrow> string option" where
  "rule_line len =
     line_of (do {
       st \<leftarrow> format_blank_prefix len;
       append_at len st (\<lambda>n. Some (format_horizontal_line n))
     })"

definition format_bus_info_metadata ::
  "nat \<Rightarrow> (nat \<Rightarrow> 32 word) \<Rightarrow> nat \<Rightarrow> nat \<Rightarrow> out option" where
  \<comment> \<open>\<^verbatim>\<open>effective_crc_length\<close> is a \<^verbatim>\<open>uint8_t\<close>\<close>
  "format_bus_info_metadata len quadlet quadlet_count data_length =
     (let block_length = unat (drop_bit 24 (quadlet 0 AND 0xff000000));
          crc_length = unat (drop_bit 16 (quadlet 0 AND 0x00ff0000));
          crc = (ucast (quadlet 0 AND 0x0000ffff) :: 16 word);
          effective_crc_length = ((data_length - 4) div 4) mod 256
      in do {
        st \<leftarrow> Some (snprintf len (''bus_info_length '' @ dec block_length));
        st \<leftarrow> print_at len st ('', crc_length '' @ dec crc_length);
        st \<leftarrow> (if 4 * (crc_length + 1) \<le> data_length then Some st
               else print_at len st ('' (up to '' @ dec effective_crc_length @ '')''));
        st \<leftarrow> print_at len st ('', crc '' @ dec (unat crc));
        (let actual_crc =
               (if 4 * (crc_length + 1) \<le> data_length
                then compute_itu_t_crc_16 (\<lambda>i. quadlet (i + 1)) crc_length
                else compute_itu_t_crc_16 (\<lambda>i. quadlet (i + 1)) effective_crc_length)
         in if crc \<noteq> actual_crc
            then print_at len st ('' (should be '' @ dec (unat actual_crc) @ '')'')
            else Some st)
      })"

definition format_ieee1394_bus_dependent_information ::
  "nat \<Rightarrow> nat \<Rightarrow> 32 word \<Rightarrow> string list option" where
  "format_ieee1394_bus_dependent_information len off quadlet =
     (let irm_capable = flag (drop_bit 31 (quadlet AND 0x80000000) \<noteq> 0);
          cm_capable = flag (drop_bit 30 (quadlet AND 0x40000000) \<noteq> 0);
          is_capable = flag (drop_bit 29 (quadlet AND 0x20000000) \<noteq> 0);
          bm_capable = flag (drop_bit 28 (quadlet AND 0x10000000) \<noteq> 0);
          cyc_clk_acc = unat (drop_bit 16 (quadlet AND 0x00ff0000));
          max_rec = unat (drop_bit 12 (quadlet AND 0x0000f000));
          generation = unat (drop_bit 4 (quadlet AND 0x000000f0));
          pm_capable = flag (drop_bit 27 (quadlet AND 0x08000000) \<noteq> 0);
          max_rom = unat (drop_bit 8 (quadlet AND 0x00000300));
          spd = unat (quadlet AND 0x00000007)
      in if generation > 0 then
           those_lines
             [line_of (do {
                st \<leftarrow> format_line_prefix len off quadlet True;
                print_at len st
                  (''irmc '' @ dec irm_capable @ '', cmc '' @ dec cm_capable @
                   '', isc '' @ dec is_capable @ '', bmc '' @ dec bm_capable @
                   '', pmc '' @ dec pm_capable @ '', cyc_clk_acc '' @ dec cyc_clk_acc @ '','')
              }),
              line_of (do {
                st \<leftarrow> format_blank_prefix len;
                print_at len st
                  (''max_rec '' @ dec max_rec @ '' ('' @ dec (2 * 2 ^ max_rec) @
                   ''), max_rom '' @ dec max_rom @ '', gen '' @ dec generation @
                   '', spd '' @ dec spd @ '' (S'' @ dec (2 ^ spd) @ ''00)'')
              })]
         else
           those_lines
             [line_of (do {
                st \<leftarrow> format_line_prefix len off quadlet True;
                print_at len st
                  (''irmc '' @ dec irm_capable @ '', cmc '' @ dec cm_capable @
                   '', isc '' @ dec is_capable @ '', bmc '' @ dec bm_capable @
                   '', cyc_clk_acc '' @ dec cyc_clk_acc @ '', max_rec '' @ dec max_rec @
                   '' ('' @ dec (2 * 2 ^ max_rec) @ '')'')
              })])"

definition format_unspecified_bus_dependent_information ::
  "nat \<Rightarrow> nat \<Rightarrow> 32 word \<Rightarrow> string list option" where
  "format_unspecified_bus_dependent_information len off quadlet =
     those_lines [line_of (format_line_prefix len off quadlet False)]"

definition format_bus_info_block ::
  "nat \<Rightarrow> rom \<Rightarrow> ieee1212_block \<Rightarrow> nat \<Rightarrow> string list option" where
  \<comment> \<open>the trailing quadlets are all printed with the offset \<^verbatim>\<open>offset + 4 * 5\<close>\<close>
  "format_bus_info_block len data bus_info data_length =
     (let off = offset bus_info;
          quadlet = content data bus_info;
          quadlet_count = length_b bus_info div 4;
          is_1394 = (quadlet 1 = 0x31333934)
      in do {
        top \<leftarrow> those_lines
                 [title_line len None ''ROM header and bus information block'',
                  rule_line len,
                  line_of (do {
                    st \<leftarrow> format_line_prefix len off (quadlet 0) True;
                    append_at len st
                      (\<lambda>n. format_bus_info_metadata n quadlet quadlet_count data_length)
                  }),
                  line_of (do {
                    st \<leftarrow> format_line_prefix len (off + 4) (quadlet 1) True;
                    print_at len st
                      (''bus_name \"'' @ (if is_1394 then ''1394'' else ''unspecified'') @ ''\"'')
                  })];
        dep \<leftarrow> (if is_1394
                then format_ieee1394_bus_dependent_information len (off + 8) (quadlet 2)
                else format_unspecified_bus_dependent_information len (off + 8) (quadlet 2));
        ids \<leftarrow> those_lines (eui64_lines len (off + 12) (quadlet 3) (quadlet 4));
        rest \<leftarrow> those_lines
                  (map (\<lambda>i. line_of (format_line_prefix len (off + 4 * 5) (quadlet i) False))
                     [5..<quadlet_count]);
        Some (top @ dep @ ids @ rest)
      })"

definition leaf_of :: "format_content \<Rightarrow> leaf_fn option" where
  \<comment> \<open>\<^verbatim>\<open>formatter->format_content.leaf\<close>\<close>
  "leaf_of c = (case c of Content_leaf f \<Rightarrow> Some f | _ \<Rightarrow> None)"

definition format_leaf_block ::
  "nat \<Rightarrow> rom \<Rightarrow> ieee1212_block list \<Rightarrow> ieee1212_block \<Rightarrow> string list option" where
  "format_leaf_block len data head leaf =
     do {
       d \<leftarrow> data_u leaf;
       identifier \<leftarrow> accumulate_spec_identifier (length head) data head (parent d)
                      unset_identifier;
       (let (fmt, spec_name) = detect_key_formatter identifier KEY_TYPE_LEAF (key_id d);
            off = offset leaf;
            quadlet = content data leaf;
            quadlet_count = length_b leaf div 4
        in do {
          top \<leftarrow> those_lines
                   [title_line len spec_name
                      (key_id_name fmt @ '' leaf at '' @ hex (IEEE1212_CONFIG_ROM_OFFSET + off)),
                    rule_line len,
                    block_header_line len off ''leaf'' quadlet quadlet_count];
          f \<leftarrow> leaf_of (format_content fmt);
          ls \<leftarrow> call_leaf f len (off + 4) (\<lambda>i. quadlet (i + 1)) (quadlet_count - 1);
          Some (top @ ls)
        })
     }"

datatype pointer = Indeterminate | Pointer "nat option"

definition directory_base :: "ieee1212_block \<Rightarrow> block_data \<Rightarrow> pointer" where
  \<comment> \<open>the \<^verbatim>\<open>switch\<close> at the head of \<^verbatim>\<open>format_directory_block\<close>; its \<^verbatim>\<open>default\<close> leaves
      the local variable \<^verbatim>\<open>base\<close> as it was declared, without a value\<close>
  "directory_base directory d =
     (if key_id d \<in> {KEY_ID_CSR_VENDOR_INFO, KEY_ID_CSR_MODULE_INFO, KEY_ID_CSR_DESCRIPTOR,
                      KEY_ID_CSR_BUS_DEP_INFO, KEY_ID_CSR_DEP_INFO, KEY_ID_CSR_INSTANCE}
      then Pointer (parent d)
      else if key_id d \<in> {KEY_ID_CSR_UNIT, KEY_ID_CSR_FEATURE}
      then Pointer (Some (offset directory))
      else Indeterminate)"

definition directory_identifier ::
  "rom \<Rightarrow> ieee1212_block list \<Rightarrow> ieee1212_block \<Rightarrow> block_data \<Rightarrow> spec_identifier option" where
  \<comment> \<open>lines 954 to 1005 of \<^verbatim>\<open>format_directory_block\<close>; the condition of the
      \<^verbatim>\<open>while\<close> loop reads \<^verbatim>\<open>base\<close>, which is undefined when it has no value\<close>
  "directory_identifier data head directory d =
     (case directory_base directory d of
        Indeterminate \<Rightarrow> None
      | Pointer base \<Rightarrow>
          accumulate_spec_identifier (length head) data head base unset_identifier)"

definition format_directory_block ::
  "nat \<Rightarrow> rom \<Rightarrow> ieee1212_block list \<Rightarrow> ieee1212_block \<Rightarrow> string list option" where
  "format_directory_block len data head directory =
     do {
       d \<leftarrow> data_u directory;
       identifier \<leftarrow> directory_identifier data head directory d;
       (let off = offset directory;
            quadlet = content data directory;
            quadlet_count = length_b directory div 4;
            (fmt, spec_name) = detect_key_formatter identifier KEY_TYPE_DIRECTORY (key_id d)
        in do {
          top \<leftarrow> those_lines
                   [title_line len None
                      (key_id_name fmt @ '' directory at '' @
                       hex (IEEE1212_CONFIG_ROM_OFFSET + off)),
                    rule_line len];
          ls \<leftarrow> (case format_content fmt of
                   Content_directory \<Rightarrow>
                     format_directory_entries len off quadlet quadlet_count identifier
                 | _ \<Rightarrow> None);
          Some (top @ ls)
        })
     }"

definition root_identifier :: "(nat \<Rightarrow> 32 word) \<Rightarrow> nat \<Rightarrow> spec_identifier" where
  \<comment> \<open>the first loop of \<^verbatim>\<open>format_root_directory_block\<close>\<close>
  "root_identifier quadlet quadlet_count =
     fold (\<lambda>i identifier.
             (let (key_type, key, val) = decode_directory_entry (quadlet i)
              in if key_type = KEY_TYPE_IMMEDIATE \<and> key = KEY_ID_CSR_VENDOR_INFO
                 then identifier\<lparr>specifier_id := val\<rparr> else identifier))
       [1..<quadlet_count] unset_identifier"

definition format_root_directory_block ::
  "nat \<Rightarrow> rom \<Rightarrow> ieee1212_block \<Rightarrow> string list option" where
  "format_root_directory_block len data root =
     (let off = offset root;
          quadlet = content data root;
          quadlet_count = length_b root div 4;
          identifier = root_identifier quadlet quadlet_count
      in do {
        top \<leftarrow> those_lines [title_line len None ''root directory'', rule_line len];
        ls \<leftarrow> format_directory_entries len off quadlet quadlet_count identifier;
        Some (top @ ls)
      })"

definition format_orphan_block :: "nat \<Rightarrow> rom \<Rightarrow> ieee1212_block \<Rightarrow> string list option" where
  "format_orphan_block len data orphan =
     those_lines
       (map (\<lambda>i. line_of (do {
                st \<leftarrow> format_line_prefix len (offset orphan + i * 4) (content data orphan i) True;
                print_at len st ''(unreferenced data)''
              }))
          [0..<length_b orphan div 4])"

definition format_block ::
  "nat \<Rightarrow> rom \<Rightarrow> nat \<Rightarrow> ieee1212_block list \<Rightarrow> ieee1212_block \<Rightarrow> string list option" where
  \<comment> \<open>\<^verbatim>\<open>format[block->block_type](buf, LINE_WIDTH, block, data_length)\<close> of \<^verbatim>\<open>print_blocks\<close>\<close>
  "format_block len data data_length head block =
     (case block_type block of
        IEEE1212_BUS_INFO_BLOCK \<Rightarrow> format_bus_info_block len data block data_length
      | IEEE1212_ROOT_DIRECTORY_BLOCK \<Rightarrow> format_root_directory_block len data block
      | IEEE1212_LEAF_BLOCK \<Rightarrow> format_leaf_block len data head block
      | IEEE1212_DIRECTORY_BLOCK \<Rightarrow> format_directory_block len data head block
      | ORPHAN_BLOCK \<Rightarrow> format_orphan_block len data block)"

fun print_blocks_loop ::
  "rom \<Rightarrow> nat \<Rightarrow> ieee1212_block list \<Rightarrow> ieee1212_block list \<Rightarrow> string list option" where
  \<comment> \<open>the second \<^verbatim>\<open>LIST_FOREACH\<close> of \<^verbatim>\<open>print_blocks\<close>: the lines of every block, each
      followed by an empty line\<close>
  "print_blocks_loop data data_length head [] = Some []"
| "print_blocks_loop data data_length head (block # rest) =
     do {
       ls \<leftarrow> format_block LINE_WIDTH data data_length head block;
       others \<leftarrow> print_blocks_loop data data_length head rest;
       Some (ls @ [[]] @ others)
     }"

definition print_blocks :: "rom \<Rightarrow> nat \<Rightarrow> ieee1212_block list \<Rightarrow> string list option" where
  \<comment> \<open>what \<^verbatim>\<open>print_blocks\<close> writes to the standard output, line by line; the line
      buffers are taken to be allocated\<close>
  "print_blocks data data_length head = print_blocks_loop data data_length head head"

section \<open>The program\<close>

record run =
  exit_status :: nat
  stdout :: "string list"
  stderr :: "string list"

definition EXIT_SUCCESS :: nat where "EXIT_SUCCESS = 0"
definition EXIT_FAILURE :: nat where "EXIT_FAILURE = 1"

definition terminal_diagnostic :: string where
  "terminal_diagnostic =
     ''A terminal is detected for standard input. Output from '' @
     ''any process or shell '' @
     ''redirection should be referred instead.''"

text \<open>
  \<^verbatim>\<open>main\<close>.  Its inputs are what \<^verbatim>\<open>isatty\<close> says about the standard input, the value
  \<^verbatim>\<open>read\<close> returns, the buffer after \<^verbatim>\<open>read\<close>, and the capacity of the heap.  Discovery
  runs with the depth \<open>len div 4\<close>.  The result is \<open>None\<close> when discovery does not
  return within that depth or when printing is undefined.
\<close>

definition main :: "bool \<Rightarrow> int \<Rightarrow> rom \<Rightarrow> nat \<Rightarrow> run option" where
  "main is_a_tty read_result data cap =
     (if is_a_tty
      then Some \<lparr>exit_status = EXIT_FAILURE, stdout = [], stderr = [terminal_diagnostic]\<rparr>
      else if read_result \<le> 0
      then Some \<lparr>exit_status = EXIT_FAILURE, stdout = [], stderr = []\<rparr>
      else
        (let len = nat read_result;
             data = to_host_order data len
         in case detect_ieee1212_blocks (len div 4) data len cap [] of
              None \<Rightarrow> None
            | Some (Inl err) \<Rightarrow> Some \<lparr>exit_status = EXIT_FAILURE, stdout = [], stderr = []\<rparr>
            | Some (Inr head) \<Rightarrow>
                (case fulfill_orphan_blocks len cap (normalize_blocks head len) of
                   Inl err \<Rightarrow> Some \<lparr>exit_status = EXIT_FAILURE, stdout = [], stderr = []\<rparr>
                 | Inr blocks \<Rightarrow>
                     map_option
                       (\<lambda>lines. \<lparr>exit_status = EXIT_SUCCESS, stdout = lines, stderr = []\<rparr>)
                       (print_blocks data len blocks))))"

section \<open>Predicates and reference functions used in the proofs\<close>

text \<open>
  None of the following is part of the program: \<open>discovered\<close> is the invariant of the
  list during discovery, \<open>new_block_ok\<close> says what discovery knows about a descriptor
  when it links it, \<open>fits\<close> is the state after \<^verbatim>\<open>normalize_blocks\<close>, \<open>fill_gaps\<close> is
  the list that \<^verbatim>\<open>fulfill_orphan_blocks\<close> is shown to compute, and \<open>tiles\<close> says that a
  list covers an interval without gap or overlap.
\<close>

abbreviation lt_off :: "ieee1212_block \<Rightarrow> ieee1212_block \<Rightarrow> bool" where
  "lt_off a b \<equiv> offset a < offset b"

definition discovered :: "nat \<Rightarrow> ieee1212_block list \<Rightarrow> bool" where
  "discovered len head =
     (head \<noteq> [] \<and> offset (hd head) = 0 \<and> sorted_wrt lt_off head \<and>
      (\<forall>b\<in>set head. 4 \<le> length_b b \<and> offset b + length_b b \<le> len \<and> 4 dvd offset b))"

definition new_block_ok :: "nat \<Rightarrow> nat \<Rightarrow> ieee1212_block list \<Rightarrow> ieee1212_block \<Rightarrow> bool" where
  "new_block_ok len cap head e =
     (\<not> list_ex (\<lambda>x. offset x = offset e) head \<and> malloc_ok cap head \<and>
      0 < offset e \<and> 4 dvd offset e \<and> 4 \<le> length_b e \<and> offset e + length_b e \<le> len \<and>
      (block_type e = IEEE1212_LEAF_BLOCK \<or> block_type e = IEEE1212_DIRECTORY_BLOCK) \<and>
      data_u e \<noteq> None)"

fun fits :: "ieee1212_block list \<Rightarrow> nat \<Rightarrow> bool" where
  "fits [] len = True"
| "fits (b # rest) len =
     (0 < length_b b \<and>
      offset b + length_b b \<le> (case rest of [] \<Rightarrow> len | peek # _ \<Rightarrow> offset peek) \<and>
      fits rest len)"

fun fill_gaps :: "ieee1212_block list \<Rightarrow> nat \<Rightarrow> ieee1212_block list" where
  "fill_gaps [] len = []"
| "fill_gaps (b # rest) len =
     (let next_offset = (case rest of [] \<Rightarrow> len | peek # _ \<Rightarrow> offset peek)
      in if offset b + length_b b \<ge> next_offset then b # fill_gaps rest len
         else b # \<lparr>offset = offset b + length_b b,
                   length_b = next_offset - (offset b + length_b b),
                   block_type = ORPHAN_BLOCK, data_u = None\<rparr> # fill_gaps rest len)"

fun tiles :: "nat \<Rightarrow> ieee1212_block list \<Rightarrow> nat \<Rightarrow> bool" where
  "tiles start [] len = (start = len)"
| "tiles start (b # bs) len =
     (offset b = start \<and> 0 < length_b b \<and> tiles (start + length_b b) bs len)"


text \<open>
  Concrete images for the examples: \<open>rom_of qs\<close> is a buffer that starts with the
  quadlets \<open>qs\<close> (host order) and is zero after them.
\<close>

definition rom_of :: "32 word list \<Rightarrow> rom" where
  "rom_of qs = (\<lambda>i. if i < length qs then qs ! i else 0)"

definition example_rom :: rom where
  \<comment> \<open>bus information block of five quadlets, a root directory with an immediate entry
      and a leaf entry, the leaf at offset 36, and two quadlets that nothing refers to\<close>
  "example_rom = rom_of [0x04040400, 0x31333934, 0x0064dc00, 0x0008278b, 0x00000001,
     0x00020000, 0x03000123, 0x81000002, 0xdeadbeef, 0x00010000, 0x12345678, 0xcafe0000]"

definition example_head :: "ieee1212_block list" where
  "example_head =
     [\<lparr>offset = 0, length_b = 20, block_type = IEEE1212_BUS_INFO_BLOCK, data_u = None\<rparr>,
      \<lparr>offset = 20, length_b = 12, block_type = IEEE1212_ROOT_DIRECTORY_BLOCK, data_u = None\<rparr>,
      \<lparr>offset = 36, length_b = 8, block_type = IEEE1212_LEAF_BLOCK,
       data_u = Some \<lparr>key_id = 1, parent = Some 20\<rparr>\<rparr>]"

definition example_blocks :: "ieee1212_block list" where
  "example_blocks =
     [\<lparr>offset = 0, length_b = 20, block_type = IEEE1212_BUS_INFO_BLOCK, data_u = None\<rparr>,
      \<lparr>offset = 20, length_b = 12, block_type = IEEE1212_ROOT_DIRECTORY_BLOCK, data_u = None\<rparr>,
      \<lparr>offset = 32, length_b = 4, block_type = ORPHAN_BLOCK, data_u = None\<rparr>,
      \<lparr>offset = 36, length_b = 8, block_type = IEEE1212_LEAF_BLOCK,
       data_u = Some \<lparr>key_id = 1, parent = Some 20\<rparr>\<rparr>,
      \<lparr>offset = 44, length_b = 4, block_type = ORPHAN_BLOCK, data_u = None\<rparr>]"

definition sbp_rom :: rom where
  \<comment> \<open>a root directory whose second and third entry both refer to the directory at
      offset 36, first under key 0x11 (unit) and then under key 0x18 (instance); that
      directory holds specifier id 0x00609e, version 0x010483 and the immediate entry
      with key 0x14 and value 0\<close>
  "sbp_rom = rom_of [0x04040400, 0x31333934, 0x0064dc00, 0x0008278b, 0x00000001,
     0x00030000, 0x03001234, 0xd1000002, 0xd8000001,
     0x00030000, 0x1200609e, 0x13010483, 0x14000000]"

definition sbp_rom_top :: "ieee1212_block list" where
  "sbp_rom_top =
     [\<lparr>offset = 0, length_b = 20, block_type = IEEE1212_BUS_INFO_BLOCK, data_u = None\<rparr>,
      \<lparr>offset = 20, length_b = 16, block_type = IEEE1212_ROOT_DIRECTORY_BLOCK, data_u = None\<rparr>]"

definition sbp_rom_unit :: ieee1212_block where
  "sbp_rom_unit =
     \<lparr>offset = 36, length_b = 16, block_type = IEEE1212_DIRECTORY_BLOCK,
      data_u = Some \<lparr>key_id = 0x11, parent = Some 20\<rparr>\<rparr>"

definition wrapped_rom :: rom where
  \<comment> \<open>the length byte of the bus information block is 0x40\<close>
  "wrapped_rom = rom_of [0x40000000, 0x00000000]"

definition model_keyed_rom :: rom where
  \<comment> \<open>as \<open>sbp_rom\<close>, but the directory at offset 36 is referred to once, under key 0x17\<close>
  "model_keyed_rom = rom_of [0x04040400, 0x31333934, 0x0064dc00, 0x0008278b, 0x00000001,
     0x00030000, 0x03001234, 0xd7000002, 0x0c0083c0,
     0x00030000, 0x1200609e, 0x13010483, 0x14000000]"


definition swapped_rom :: rom where
  \<comment> \<open>a buffer whose quadlet 1 is 0x1394\<close>
  "swapped_rom = rom_of [0x04040400, 0x00001394]"

section \<open>The order in which discovery reaches the entries\<close>

text \<open>
  The following functions are not part of the program.  They run through discovery as
  \<^verbatim>\<open>detect_ieee1212_directory_entries\<close> and \<^verbatim>\<open>detect_ieee1212_directory_block\<close> do, on the
  same lists, and write down every entry for which the \<^verbatim>\<open>for\<close> loop calls
  \<^verbatim>\<open>detect_block\<close>, in the order of the calls: the pair \<open>(d, i)\<close> is the entry that the
  loop reads at index \<open>i\<close> in the directory whose header is at offset \<open>d\<close>, that is, at
  \<^verbatim>\<open>directory_offset + i * 4\<close> after \<^verbatim>\<open>directory_offset += 4\<close>.
\<close>

type_synonym visit = "nat \<times> nat"

function detect_ieee1212_directory_entries_visits ::
    "nat \<Rightarrow> rom \<Rightarrow> nat \<Rightarrow> nat \<Rightarrow> nat \<Rightarrow> nat \<Rightarrow> nat option \<Rightarrow> ieee1212_block list
     \<Rightarrow> visit list"
  and detect_entries_loop_visits ::
    "nat \<Rightarrow> rom \<Rightarrow> nat \<Rightarrow> nat \<Rightarrow> nat \<Rightarrow> nat list \<Rightarrow> nat option \<Rightarrow> ieee1212_block list
     \<Rightarrow> visit list"
  and detect_ieee1212_directory_block_visits ::
    "nat \<Rightarrow> rom \<Rightarrow> nat \<Rightarrow> nat \<Rightarrow> nat \<Rightarrow> nat \<Rightarrow> nat \<Rightarrow> nat option \<Rightarrow> ieee1212_block list
     \<Rightarrow> visit list"
where
  "detect_ieee1212_directory_entries_visits depth data len cap directory_offset directory_length
       parent_p head =
     detect_entries_loop_visits depth data len cap (directory_offset + 4)
       [0..<(directory_length - 4) div 4] parent_p head"
| "detect_entries_loop_visits depth data len cap directory_offset [] parent_p head = []"
| "detect_entries_loop_visits depth data len cap directory_offset (i # is) parent_p head =
     (let entry_offset = directory_offset + i * 4;
          quadlet = quadlet_at data entry_offset;
          (key_type, key, val) = decode_directory_entry quadlet
      in if key_type = KEY_TYPE_LEAF \<or> key_type = KEY_TYPE_DIRECTORY then
           (let block_offset = entry_offset + 4 * unat val
            in if block_offset \<ge> len then []
               else
                 (case detect_ieee1212_block_length data len block_offset of
                    Inl err \<Rightarrow> []
                  | Inr block_length \<Rightarrow>
                      (directory_offset - 4, i) #
                      (if key_type = KEY_TYPE_LEAF then []
                       else detect_ieee1212_directory_block_visits depth data len cap
                              block_offset block_length key parent_p head) @
                      (case (if key_type = KEY_TYPE_LEAF
                             then Some (detect_ieee1212_leaf_block cap block_offset
                                          block_length key parent_p head)
                             else detect_ieee1212_directory_block depth data len cap
                                    block_offset block_length key parent_p head) of
                         Some (Inr head') \<Rightarrow>
                           detect_entries_loop_visits depth data len cap directory_offset is
                             parent_p head'
                       | _ \<Rightarrow> [])))
         else detect_entries_loop_visits depth data len cap directory_offset is parent_p head)"
| "detect_ieee1212_directory_block_visits depth data len cap block_offset block_length key
       parent_p head =
     (if list_ex (\<lambda>entry. offset entry = block_offset) head then []
      else if \<not> malloc_ok cap head then []
      else
        (case depth of
           0 \<Rightarrow> []
         | Suc depth' \<Rightarrow>
             detect_ieee1212_directory_entries_visits depth' data len cap block_offset
               block_length (Some block_offset)
               (insert_block_by_offset head
                  \<lparr>offset = block_offset, length_b = block_length,
                   block_type = IEEE1212_DIRECTORY_BLOCK,
                   data_u = Some \<lparr>key_id = key, parent = parent_p\<rparr>\<rparr>)))"
  by pat_completeness auto
termination
  by (relation "measures [
      (\<lambda>x. case x of Inl (depth, _) \<Rightarrow> depth | Inr (Inl (depth, _)) \<Rightarrow> depth
                | Inr (Inr (depth, _)) \<Rightarrow> depth),
      (\<lambda>x. case x of Inl _ \<Rightarrow> 2 | Inr (Inl _) \<Rightarrow> 1 | Inr (Inr _) \<Rightarrow> 0),
      (\<lambda>x. case x of Inl _ \<Rightarrow> 0 | Inr (Inl (_, _, _, _, _, is, _)) \<Rightarrow> length is
                | Inr (Inr _) \<Rightarrow> 0)]") auto

definition detect_ieee1212_root_directory_block_visits ::
  "nat \<Rightarrow> rom \<Rightarrow> nat \<Rightarrow> nat \<Rightarrow> nat \<Rightarrow> nat \<Rightarrow> ieee1212_block list \<Rightarrow> visit list" where
  "detect_ieee1212_root_directory_block_visits depth data len cap block_offset block_length head =
     (if \<not> malloc_ok cap head then []
      else detect_ieee1212_directory_entries_visits depth data len cap block_offset block_length
             (Some block_offset)
             (insert_block_by_offset head
                \<lparr>offset = block_offset, length_b = block_length,
                 block_type = IEEE1212_ROOT_DIRECTORY_BLOCK, data_u = None\<rparr>))"

definition detect_ieee1212_blocks_visits ::
  "nat \<Rightarrow> rom \<Rightarrow> nat \<Rightarrow> nat \<Rightarrow> ieee1212_block list \<Rightarrow> visit list" where
  "detect_ieee1212_blocks_visits depth data len cap head =
     (case detect_ieee1212_bus_info_block_length data len 0 of
        Inl err \<Rightarrow> []
      | Inr block_length \<Rightarrow>
          (case detect_ieee1212_bus_info_block cap 0 block_length head of
             Inl err \<Rightarrow> []
           | Inr head' \<Rightarrow>
               (case detect_ieee1212_block_length data len (0 + block_length) of
                  Inl err \<Rightarrow> []
                | Inr block_length' \<Rightarrow>
                    detect_ieee1212_root_directory_block_visits depth data len cap
                      (0 + block_length) block_length' head')))"


text \<open>
  \<open>entry_target data (d, i)\<close> decodes that entry: for a leaf or directory entry it is
  the key type, the key id and the offset of the block the entry refers to.
  \<open>references_materialized\<close> says that every leaf or directory entry of every root or
  directory block of a list refers to the offset of a block of the list.
  \<open>parents_are_first_discoverers\<close> says of every leaf and directory block \<open>b\<close> of a list
  that the first entry, in the order of the visits, that refers to the offset of \<open>b\<close> is
  an entry of a root or directory block \<open>p\<close> of the list, that the parent stored in \<open>b\<close>
  points to \<open>p\<close>, that the key id stored in \<open>b\<close> is the key id of that entry, and that
  \<open>b\<close> is a leaf or a directory as the key type of that entry says.  \<open>discovery_step\<close> is
  the invariant of the proof.
\<close>

definition entry_target :: "rom \<Rightarrow> visit \<Rightarrow> (nat \<times> nat \<times> nat) option" where
  "entry_target data v =
     (let entry_offset = fst v + 4 + snd v * 4;
          (key_type, key, val) = decode_directory_entry (quadlet_at data entry_offset)
      in if key_type = KEY_TYPE_LEAF \<or> key_type = KEY_TYPE_DIRECTORY
         then Some (key_type, key, entry_offset + 4 * unat val) else None)"

definition refers :: "rom \<Rightarrow> nat \<Rightarrow> visit \<Rightarrow> bool" where
  "refers data t v = (case entry_target data v of None \<Rightarrow> False | Some (kt, key, bo) \<Rightarrow> bo = t)"

definition is_directory :: "ieee1212_block \<Rightarrow> bool" where
  "is_directory b =
     (block_type b = IEEE1212_ROOT_DIRECTORY_BLOCK \<or> block_type b = IEEE1212_DIRECTORY_BLOCK)"

definition entry_count :: "ieee1212_block \<Rightarrow> nat" where
  "entry_count p = (length_b p - 4) div 4"

definition entries_materialized :: "rom \<Rightarrow> ieee1212_block list \<Rightarrow> ieee1212_block \<Rightarrow> bool" where
  "entries_materialized data head p =
     list_all (\<lambda>j. case entry_target data (offset p, j) of
                     None \<Rightarrow> True
                   | Some (kt, key, t) \<Rightarrow> list_ex (\<lambda>b. offset b = t) head)
       [0..<entry_count p]"

definition references_materialized :: "rom \<Rightarrow> ieee1212_block list \<Rightarrow> bool" where
  "references_materialized data head =
     list_all (\<lambda>p. is_directory p \<longrightarrow> entries_materialized data head p) head"

definition discovered_by :: "rom \<Rightarrow> ieee1212_block list \<Rightarrow> visit \<Rightarrow> ieee1212_block \<Rightarrow> bool" where
  "discovered_by data head v b =
     (list_ex (\<lambda>p. offset p = fst v \<and> is_directory p \<and> snd v < entry_count p) head \<and>
      (case entry_target data v of
         None \<Rightarrow> False
       | Some (kt, key, t) \<Rightarrow>
           t = offset b \<and>
           data_u b = Some \<lparr>key_id = key, parent = Some (fst v)\<rparr> \<and>
           block_type b = (if kt = KEY_TYPE_LEAF then IEEE1212_LEAF_BLOCK
                           else IEEE1212_DIRECTORY_BLOCK)))"

definition parents_are_first_discoverers ::
  "rom \<Rightarrow> visit list \<Rightarrow> ieee1212_block list \<Rightarrow> bool" where
  "parents_are_first_discoverers data visits head =
     list_all (\<lambda>b. block_type b = IEEE1212_LEAF_BLOCK \<or> block_type b = IEEE1212_DIRECTORY_BLOCK \<longrightarrow>
                 (case find (refers data (offset b)) visits of
                    None \<Rightarrow> False
                  | Some v \<Rightarrow> discovered_by data head v b))
       head"

definition discovery_step ::
  "rom \<Rightarrow> ieee1212_block list \<Rightarrow> visit list \<Rightarrow> ieee1212_block list \<Rightarrow> bool" where
  "discovery_step data h tr h' =
     (set h \<subseteq> set h' \<and>
      (\<forall>v\<in>set tr. \<exists>t. refers data t v \<and> t \<in> offset ` set h') \<and>
      (\<forall>b\<in>set h' - set h.
         offset b \<notin> offset ` set h \<and>
         (\<exists>v. find (refers data (offset b)) tr = Some v \<and> discovered_by data h' v b) \<and>
         (block_type b = IEEE1212_DIRECTORY_BLOCK \<longrightarrow> entries_materialized data h' b)))"


text \<open>
  \<open>nested_rom\<close>: the root directory refers to the directory at offset 40 (key 0x11) and
  then to the leaf at offset 56 (key 0x01); the directory at offset 40, which discovery
  enters first, refers to the same leaf twice, under key 0x19 and then under key 0x01.
\<close>

definition nested_rom :: rom where
  "nested_rom = rom_of [0x04040400, 0x31333934, 0x0064dc00, 0x0008278b, 0x00000001,
     0x00030000, 0x03001234, 0xd1000003, 0x81000006, 0xdeadbeef,
     0x00030000, 0x99000003, 0x81000002, 0x1200609e,
     0x00010000, 0x12345678]"

definition nested_head :: "ieee1212_block list" where
  "nested_head =
     [\<lparr>offset = 0, length_b = 20, block_type = IEEE1212_BUS_INFO_BLOCK, data_u = None\<rparr>,
      \<lparr>offset = 20, length_b = 16, block_type = IEEE1212_ROOT_DIRECTORY_BLOCK, data_u = None\<rparr>,
      \<lparr>offset = 40, length_b = 16, block_type = IEEE1212_DIRECTORY_BLOCK,
       data_u = Some \<lparr>key_id = 0x11, parent = Some 20\<rparr>\<rparr>,
      \<lparr>offset = 56, length_b = 8, block_type = IEEE1212_LEAF_BLOCK,
       data_u = Some \<lparr>key_id = 0x19, parent = Some 40\<rparr>\<rparr>]"


section \<open>Reference texts for the header line of a block\<close>

text \<open>
  None of the following is part of the program.  \<open>stored_crc\<close> is the CRC field of the
  header quadlet of a block, \<open>content_crc\<close> the CRC that \<^verbatim>\<open>compute_itu_t_crc_16\<close> gives for
  the quadlets of the block after its header, as many as the length of the block in the
  list says, and \<open>with_crc\<close> the buffer in which the CRC field of the header of a block
  is overwritten.  \<open>line_prefix\<close> and \<open>metadata_text\<close> are the texts that
  \<^verbatim>\<open>format_line_prefix\<close> and \<^verbatim>\<open>format_block_metadata\<close> are shown to write when the
  buffer of the line has room for them.
\<close>

definition stored_crc :: "rom \<Rightarrow> ieee1212_block \<Rightarrow> 16 word" where
  "stored_crc data block = ucast (content data block 0 AND 0x0000ffff)"

definition content_crc :: "rom \<Rightarrow> ieee1212_block \<Rightarrow> 16 word" where
  "content_crc data block =
     compute_itu_t_crc_16 (\<lambda>i. content data block (i + 1)) (length_b block div 4 - 1)"

definition with_crc :: "rom \<Rightarrow> ieee1212_block \<Rightarrow> 16 word \<Rightarrow> rom" where
  "with_crc data block crc =
     data(offset block div 4 := (data (offset block div 4) AND 0xffff0000) OR ucast crc)"

definition line_prefix :: "nat \<Rightarrow> 32 word \<Rightarrow> string" where
  "line_prefix off q =
     pad CHR '' '' 3 (hex (off + IEEE1212_CONFIG_ROM_OFFSET)) @ ''  '' @
     pad CHR ''0'' 8 (hex (unat q)) @ ''  ''"

definition metadata_text :: "string \<Rightarrow> (nat \<Rightarrow> 32 word) \<Rightarrow> nat \<Rightarrow> string" where
  "metadata_text block_name quadlet quadlet_count =
     (let block_length = (ucast (drop_bit 16 (quadlet 0 AND 0xffff0000)) :: 16 word);
          block_crc = (ucast (quadlet 0 AND 0x0000ffff) :: 16 word);
          actual_block_crc = compute_itu_t_crc_16 (\<lambda>i. quadlet (i + 1)) (quadlet_count - 1)
      in (block_name @ ''_length '' @ dec (unat block_length)) @
         (if 1 + unat block_length \<noteq> quadlet_count
          then '' (actual length '' @ dec (quadlet_count - 1) @ '')'' else []) @
         ('', crc '' @ dec (unat block_crc)) @
         (if block_crc \<noteq> actual_block_crc
          then '' (should be '' @ dec (unat actual_block_crc) @ '')'' else []))"

text \<open>
  \<open>overlap_rom\<close>: the root directory refers to a leaf at offset 32, whose header
  declares two quadlets and holds the CRC of the two quadlets that follow it, and to a
  leaf at offset 36, inside the first; \<^verbatim>\<open>normalize_blocks\<close> cuts the first leaf down to
  its header.
\<close>

definition overlap_rom :: rom where
  "overlap_rom = rom_of [0x04040400, 0x31333934, 0x0064dc00, 0x0008278b, 0x00000001,
     0x00020000, 0x81000002, 0x81000002,
     0x00020c4d, 0x00010000, 0x12345678]"

definition overlap_head :: "ieee1212_block list" where
  "overlap_head =
     [\<lparr>offset = 0, length_b = 20, block_type = IEEE1212_BUS_INFO_BLOCK, data_u = None\<rparr>,
      \<lparr>offset = 20, length_b = 12, block_type = IEEE1212_ROOT_DIRECTORY_BLOCK, data_u = None\<rparr>,
      \<lparr>offset = 32, length_b = 12, block_type = IEEE1212_LEAF_BLOCK,
       data_u = Some \<lparr>key_id = 1, parent = Some 20\<rparr>\<rparr>,
      \<lparr>offset = 36, length_b = 8, block_type = IEEE1212_LEAF_BLOCK,
       data_u = Some \<lparr>key_id = 1, parent = Some 20\<rparr>\<rparr>]"

definition overlap_leaf :: ieee1212_block where
  "overlap_leaf = \<lparr>offset = 32, length_b = 4, block_type = IEEE1212_LEAF_BLOCK,
       data_u = Some \<lparr>key_id = 1, parent = Some 20\<rparr>\<rparr>"

definition overlap_blocks :: "ieee1212_block list" where
  "overlap_blocks =
     [\<lparr>offset = 0, length_b = 20, block_type = IEEE1212_BUS_INFO_BLOCK, data_u = None\<rparr>,
      \<lparr>offset = 20, length_b = 12, block_type = IEEE1212_ROOT_DIRECTORY_BLOCK, data_u = None\<rparr>,
      overlap_leaf,
      \<lparr>offset = 36, length_b = 8, block_type = IEEE1212_LEAF_BLOCK,
       data_u = Some \<lparr>key_id = 1, parent = Some 20\<rparr>\<rparr>]"

section \<open>The identifier that a block declares\<close>

text \<open>
  None of the following is part of the program.  \<open>first_immediate keys quadlet idxs\<close> is
  the value of the first entry, among the quadlets at the indices \<open>idxs\<close>, that is an
  immediate entry with a key id in \<open>keys\<close>.  \<open>declared_identifier data b\<close> is the pair of
  the value of the first immediate entry of block \<open>b\<close> with key id specifier id or vendor
  info and the value of its first immediate entry with key id version, when \<open>b\<close> has
  both.
\<close>

definition first_immediate :: "nat list \<Rightarrow> (nat \<Rightarrow> 32 word) \<Rightarrow> nat list \<Rightarrow> 32 word option" where
  "first_immediate keys quadlet idxs =
     (case filter (\<lambda>i. fst (decode_directory_entry (quadlet i)) = KEY_TYPE_IMMEDIATE \<and>
                        fst (snd (decode_directory_entry (quadlet i))) \<in> set keys) idxs of
        [] \<Rightarrow> None
      | i # _ \<Rightarrow> Some (snd (snd (decode_directory_entry (quadlet i)))))"

definition declared_identifier :: "rom \<Rightarrow> ieee1212_block \<Rightarrow> spec_identifier option" where
  "declared_identifier data b =
     (case (first_immediate [KEY_ID_CSR_SPECIFIER_ID, KEY_ID_CSR_VENDOR_INFO] (content data b)
              [1..<length_b b div 4],
            first_immediate [KEY_ID_CSR_VERSION] (content data b) [1..<length_b b div 4]) of
        (Some v1, Some v2) \<Rightarrow> Some \<lparr>specifier_id = v1, version = v2\<rparr>
      | _ \<Rightarrow> None)"

section \<open>Evaluation\<close>

text \<open>
  A step of the CRC yields a value: the equation below makes the evaluation of the
  inner loop strict, step by step.
\<close>

lemma crc_step_code [code]:
  "crc_step crc q shift = word_of_nat (unat (
     (let sum = (drop_bit 12 crc XOR drop_bit shift q) AND 0x0000000f
      in (push_bit 4 crc XOR push_bit 12 sum XOR push_bit 5 sum XOR sum) AND 0x0000ffff)))"
  by (simp add: crc_step_def)

text \<open>Printing is undefined as soon as the rendering of one block is.\<close>

lemma print_blocks_loop_None:
  "b \<in> set bs \<Longrightarrow> format_block LINE_WIDTH data n head b = None \<Longrightarrow>
   print_blocks_loop data n head bs = None"
  by (induction bs) (auto split: Option.bind_splits)


section \<open>Block discovery, normalization and orphan fill\<close>

lemma insert_after_cursor_not_Nil [simp]: "insert_after_cursor entry cursor rest \<noteq> []"
  by (cases rest) auto

lemma set_insert_after_cursor:
  "set (insert_after_cursor entry cursor rest) = insert entry (insert cursor (set rest))"
  by (induction rest arbitrary: cursor) auto

lemma hd_insert_after_cursor:
  "hd (insert_after_cursor entry cursor rest) = cursor"
  by (cases rest) auto

lemma sorted_insert_after_cursor:
  "sorted_wrt lt_off (cursor # rest) \<Longrightarrow> offset cursor < offset entry \<Longrightarrow>
   \<forall>b\<in>set rest. offset b \<noteq> offset entry \<Longrightarrow>
   sorted_wrt lt_off (insert_after_cursor entry cursor rest)"
proof (induction rest arbitrary: cursor)
  case Nil
  then show ?case by simp
next
  case (Cons peek rest)
  show ?case
  proof (cases "offset peek > offset entry")
    case True
    with Cons.prems show ?thesis by auto
  next
    case False
    with Cons.prems have lt: "offset peek < offset entry" by auto
    from Cons.prems have "sorted_wrt lt_off (peek # rest)" by simp
    from Cons.IH[OF this lt] Cons.prems
    have "sorted_wrt lt_off (insert_after_cursor entry peek rest)" by simp
    with Cons.prems False lt show ?thesis
      by (auto simp: set_insert_after_cursor)
  qed
qed

lemma discovered_insert:
  assumes "discovered len head" "0 < off" "\<not> list_ex (\<lambda>entry. offset entry = off) head"
    "4 \<le> length_b e" "off + length_b e \<le> len" "4 dvd off" "offset e = off"
  shows "discovered len (insert_block_by_offset head e)"
proof -
  from assms(1) obtain cursor rest where h: "head = cursor # rest"
    by (cases head) (auto simp: discovered_def)
  with assms(1) have c0: "offset cursor = 0" and s: "sorted_wrt lt_off (cursor # rest)"
    by (auto simp: discovered_def)
  from assms(3) h have ne: "\<forall>b\<in>set rest. offset b \<noteq> offset e"
    by (auto simp: list_ex_iff assms(7))
  have "sorted_wrt lt_off (insert_after_cursor e cursor rest)"
    by (rule sorted_insert_after_cursor[OF s _ ne]) (simp add: c0 assms)
  with assms h c0 show ?thesis
    by (auto simp: discovered_def insert_block_by_offset_def hd_insert_after_cursor
        set_insert_after_cursor)
qed

lemma block_length_props:
  "detect_ieee1212_block_length data len off = Inr bl \<Longrightarrow> 4 \<le> bl \<and> off + bl \<le> len"
  by (auto simp: detect_ieee1212_block_length_def Let_def split: if_splits)

lemma leaf_block_cases:
  assumes "detect_ieee1212_leaf_block cap off bl key p head = Inr head'"
  obtains "head' = head" "list_ex (\<lambda>entry. offset entry = off) head"
  | "head' = insert_block_by_offset head
             \<lparr>offset = off, length_b = bl, block_type = IEEE1212_LEAF_BLOCK,
              data_u = Some \<lparr>key_id = key, parent = p\<rparr>\<rparr>"
    "\<not> list_ex (\<lambda>entry. offset entry = off) head" "malloc_ok cap head"
  using assms by (auto simp: detect_ieee1212_leaf_block_def split: if_splits)

lemma detect_preserves:
  fixes I :: "ieee1212_block list \<Rightarrow> bool"
  shows "(\<forall>h e. I h \<longrightarrow> new_block_ok len cap h e \<longrightarrow> I (insert_block_by_offset h e)) \<Longrightarrow>
     I head \<Longrightarrow> 4 dvd directory_offset \<Longrightarrow>
     detect_ieee1212_directory_entries depth data len cap directory_offset directory_length
       parent_p head = Some (Inr head') \<Longrightarrow> I head'"
  and "(\<forall>h e. I h \<longrightarrow> new_block_ok len cap h e \<longrightarrow> I (insert_block_by_offset h e)) \<Longrightarrow>
     I head \<Longrightarrow> 4 dvd directory_offset \<Longrightarrow> 0 < directory_offset \<Longrightarrow>
     detect_entries_loop depth data len cap directory_offset is parent_p head
       = Some (Inr head') \<Longrightarrow> I head'"
  and "(\<forall>h e. I h \<longrightarrow> new_block_ok len cap h e \<longrightarrow> I (insert_block_by_offset h e)) \<Longrightarrow>
     I head \<Longrightarrow> 4 dvd block_offset \<Longrightarrow> 0 < block_offset \<Longrightarrow> 4 \<le> block_length \<Longrightarrow>
     block_offset + block_length \<le> len \<Longrightarrow>
     detect_ieee1212_directory_block depth data len cap block_offset block_length key
       parent_p head = Some (Inr head') \<Longrightarrow> I head'"
proof (induction depth data len cap directory_offset directory_length parent_p head
         and depth data len cap directory_offset "is" parent_p head
         and depth data len cap block_offset block_length key parent_p head
       arbitrary: head' and head' and head'
       rule: detect_ieee1212_directory_entries_detect_entries_loop_detect_ieee1212_directory_block.induct)
  case (1 depth data len cap directory_offset directory_length parent_p head)
  then show ?case by simp
next
  case (2 depth data len cap directory_offset parent_p head)
  then show ?case by simp
next
  case (3 depth data len cap directory_offset i "is" parent_p head)
  let ?eo = "directory_offset + i * 4"
  obtain kt key val where dec: "decode_directory_entry (quadlet_at data ?eo) = (kt, key, val)"
    by (cases "decode_directory_entry (quadlet_at data ?eo)") auto
  note step = "3.prems"(1)
  show ?case
  proof (cases "kt = KEY_TYPE_LEAF \<or> kt = KEY_TYPE_DIRECTORY")
    case False
    with "3.prems" dec have "detect_entries_loop depth data len cap directory_offset is parent_p head
       = Some (Inr head')" by (simp add: Let_def)
    from "3.IH"(3)[OF refl refl refl dec[symmetric] refl False step "3.prems"(2,3,4) this]
    show ?thesis .
  next
    case True
    let ?bo = "?eo + 4 * unat val"
    from "3.prems"(5) dec True have lt: "\<not> len \<le> ?bo"
      by (auto simp: Let_def split: if_splits)
    from "3.prems"(5) dec True lt obtain bl where
      bl: "detect_ieee1212_block_length data len ?bo = Inr bl"
      by (auto simp: Let_def split: if_splits sum.splits)
    let ?inner = "(if kt = KEY_TYPE_LEAF
            then Some (detect_ieee1212_leaf_block cap ?bo bl key parent_p head)
            else detect_ieee1212_directory_block depth data len cap ?bo bl key parent_p head)"
    from "3.prems"(5) dec True lt bl obtain h1 where
      inner: "?inner = Some (Inr h1)" and
      rest: "detect_entries_loop depth data len cap directory_offset is parent_p h1 = Some (Inr head')"
      by (auto simp: Let_def split: if_splits sum.splits option.splits)
    have bo4: "4 dvd ?bo" using "3.prems"(3) by simp
    have bo0: "0 < ?bo" using "3.prems"(4) by simp
    from block_length_props[OF bl] have bl4: "4 \<le> bl" and blen: "?bo + bl \<le> len" by auto
    have "I h1"
    proof (cases "kt = KEY_TYPE_LEAF")
      case True
      with inner have "detect_ieee1212_leaf_block cap ?bo bl key parent_p head = Inr h1" by simp
      then show ?thesis
      proof (cases rule: leaf_block_cases)
        case 1
        with "3.prems"(2) show ?thesis by simp
      next
        case 2
        have "new_block_ok len cap head \<lparr>offset = ?bo, length_b = bl, block_type = IEEE1212_LEAF_BLOCK,
              data_u = Some \<lparr>key_id = key, parent = parent_p\<rparr>\<rparr>"
          using 2 bo4 bo0 bl4 blen by (simp add: new_block_ok_def)
        with step "3.prems"(2) 2(1) show ?thesis by blast
      qed
    next
      case False
      with inner have "detect_ieee1212_directory_block depth data len cap ?bo bl key parent_p head
          = Some (Inr h1)" by simp
      from "3.IH"(1)[OF refl refl refl dec[symmetric] refl True refl lt bl False step
            "3.prems"(2) bo4 bo0 bl4 blen this]
      show ?thesis .
    qed
    from "3.IH"(2)[OF refl refl refl dec[symmetric] refl True refl lt bl inner refl step
          this "3.prems"(3,4) rest]
    show ?thesis .
  qed
next
  case (4 depth data len cap block_offset block_length key parent_p head)
  let ?e = "\<lparr>offset = block_offset, length_b = block_length,
                   block_type = IEEE1212_DIRECTORY_BLOCK,
                   data_u = Some \<lparr>key_id = key, parent = parent_p\<rparr>\<rparr>"
  show ?case
  proof (cases "list_ex (\<lambda>entry. offset entry = block_offset) head")
    case True
    with "4.prems" show ?thesis by simp
  next
    case False
    with "4.prems"(7) have m: "malloc_ok cap head" by (auto split: if_splits)
    with "4.prems"(7) False obtain d where d: "depth = Suc d"
      by (cases depth) auto
    with "4.prems"(7) False m have r: "detect_ieee1212_directory_entries d data len cap block_offset
               block_length (Some block_offset) (insert_block_by_offset head ?e) = Some (Inr head')"
      by simp
    have "new_block_ok len cap head ?e"
      using False m "4.prems" by (simp add: new_block_ok_def)
    with "4.prems"(1,2) have "I (insert_block_by_offset head ?e)" by blast
    from "4.IH"[OF False _ d "4.prems"(1) this "4.prems"(3) r] m
    show ?thesis by simp
  qed
qed

lemma bus_info_length_word:
  "drop_bit 24 (4 * (q AND 0xff000000 :: 32 word)) = push_bit 2 (take_bit 6 (drop_bit 24 q))"
proof -
  have m: "(0xff000000 :: 32 word) = push_bit 24 (mask 8)"
    by (simp add: mask_eq_exp_minus_1 push_bit_eq_mult)
  have "4 * (q AND 0xff000000) = push_bit 2 (q AND push_bit 24 (mask 8))"
    by (simp only: m) (simp add: push_bit_eq_mult)
  also have "drop_bit 24 \<dots> = push_bit 2 (take_bit 6 (drop_bit 24 q))"
    by (rule bit_word_eqI) (auto simp: bit_simps)
  finally show ?thesis .
qed

lemma block_length_word:
  "drop_bit 16 (4 * (q AND 0xffff0000 :: 32 word)) = push_bit 2 (take_bit 14 (drop_bit 16 q))"
proof -
  have m: "(0xffff0000 :: 32 word) = push_bit 16 (mask 16)"
    by (simp add: mask_eq_exp_minus_1 push_bit_eq_mult)
  have "4 * (q AND 0xffff0000) = push_bit 2 (q AND push_bit 16 (mask 16))"
    by (simp only: m) (simp add: push_bit_eq_mult)
  also have "drop_bit 16 \<dots> = push_bit 2 (take_bit 14 (drop_bit 16 q))"
    by (rule bit_word_eqI) (auto simp: bit_simps)
  finally show ?thesis .
qed

lemma unat_bus_info_length:
  "unat (drop_bit 24 (4 * (q AND 0xff000000 :: 32 word))) = 4 * (unat (drop_bit 24 q) mod 64)"
proof -
  have "unat (push_bit 2 (take_bit 6 (drop_bit 24 q))) = take_bit 32 (push_bit 2 (take_bit 6 (unat (drop_bit 24 q))))"
    by (simp add: unsigned_push_bit_eq unsigned_take_bit_eq)
  also have "\<dots> = 4 * (unat (drop_bit 24 q) mod 64)"
    by (simp add: take_bit_eq_mod push_bit_eq_mult)
  finally show ?thesis by (simp only: bus_info_length_word)
qed

lemma unat_block_length:
  "unat (drop_bit 16 (4 * (q AND 0xffff0000 :: 32 word))) = 4 * (unat (drop_bit 16 q) mod 16384)"
proof -
  have "unat (push_bit 2 (take_bit 14 (drop_bit 16 q))) = take_bit 32 (push_bit 2 (take_bit 14 (unat (drop_bit 16 q))))"
    by (simp add: unsigned_push_bit_eq unsigned_take_bit_eq)
  also have "\<dots> = 4 * (unat (drop_bit 16 q) mod 16384)"
    by (simp add: take_bit_eq_mod push_bit_eq_mult)
  finally show ?thesis by (simp only: block_length_word)
qed

lemma bus_info_length_props:
  "detect_ieee1212_bus_info_block_length data len off = Inr bl \<Longrightarrow>
     4 \<le> bl \<and> off + bl \<le> len \<and> 4 dvd bl"
  by (auto simp: detect_ieee1212_bus_info_block_length_def Let_def unat_bus_info_length
      split: if_splits)

lemma block_length_dvd:
  "detect_ieee1212_block_length data len off = Inr bl \<Longrightarrow> 4 dvd bl"
  by (auto simp: detect_ieee1212_block_length_def Let_def unat_block_length split: if_splits)

lemma discovered_step:
  "\<forall>h e. discovered len h \<longrightarrow> new_block_ok len cap h e \<longrightarrow>
     discovered len (insert_block_by_offset h e)"
  by (auto simp: new_block_ok_def intro!: discovered_insert)

lemma detect_blocks_discovered:
  assumes "detect_ieee1212_blocks depth data len cap [] = Some (Inr head)"
  shows "discovered len head"
proof -
  from assms obtain bl where bl: "detect_ieee1212_bus_info_block_length data len 0 = Inr bl"
    by (auto simp: detect_ieee1212_blocks_def split: sum.splits)
  let ?bus = "\<lparr>offset = 0, length_b = bl, block_type = IEEE1212_BUS_INFO_BLOCK, data_u = None\<rparr>"
  from assms bl have h1: "detect_ieee1212_bus_info_block cap 0 bl [] = Inr [?bus]"
    by (auto simp: detect_ieee1212_blocks_def detect_ieee1212_bus_info_block_def
        insert_block_by_offset_def split: sum.splits if_splits)
  from assms bl h1 obtain rl where rl: "detect_ieee1212_block_length data len bl = Inr rl"
    by (auto simp: detect_ieee1212_blocks_def split: sum.splits)
  let ?root = "\<lparr>offset = bl, length_b = rl, block_type = IEEE1212_ROOT_DIRECTORY_BLOCK,
                data_u = None\<rparr>"
  from assms bl h1 rl have r: "detect_ieee1212_directory_entries depth data len cap bl rl (Some bl)
      (insert_block_by_offset [?bus] ?root) = Some (Inr head)"
    by (auto simp: detect_ieee1212_blocks_def detect_ieee1212_root_directory_block_def
        split: if_splits)
  from bus_info_length_props[OF bl] have b: "4 \<le> bl" "bl \<le> len" "4 dvd bl" by auto
  from block_length_props[OF rl] have rp: "4 \<le> rl" "bl + rl \<le> len" by auto
  have "discovered len [?bus]" using b by (simp add: discovered_def)
  then have "discovered len (insert_block_by_offset [?bus] ?root)"
    by (rule discovered_insert) (use b rp in auto)
  from detect_preserves(1)[where I="discovered len", OF discovered_step this b(3) r]
  show ?thesis .
qed

lemma normalize_next:
  "(case normalize_blocks rest len of [] \<Rightarrow> len | peek # _ \<Rightarrow> offset peek)
   = (case rest of [] \<Rightarrow> len | peek # _ \<Rightarrow> offset peek)"
  by (cases rest) (auto simp: Let_def)

lemma map_offset_normalize: "map offset (normalize_blocks head len) = map offset head"
  by (induction head) (auto simp: Let_def)

lemma normalize_fits:
  "sorted_wrt lt_off head \<Longrightarrow>
   \<forall>b\<in>set head. 0 < length_b b \<and> offset b + length_b b \<le> len \<Longrightarrow>
   fits (normalize_blocks head len) len"
proof (induction head)
  case Nil
  then show ?case by simp
next
  case (Cons b rest)
  then have IH: "fits (normalize_blocks rest len) len" by simp
  show ?case
  proof (cases rest)
    case Nil
    with Cons.prems show ?thesis by (simp add: Let_def)
  next
    case (Cons p r)
    with Cons.prems have "offset b < offset p" by simp
    with IH Cons Cons.prems show ?thesis
      by (simp add: Let_def normalize_next del: normalize_blocks.simps(2))
         (auto simp: Let_def)
  qed
qed

lemma sorted_nth_mono:
  "sorted_wrt lt_off xs \<Longrightarrow> i \<le> j \<Longrightarrow> j < length xs \<Longrightarrow> offset (xs ! i) \<le> offset (xs ! j)"
proof (cases "i = j")
  case True
  then show ?thesis by simp
next
  case False
  assume "sorted_wrt lt_off xs" "i \<le> j" "j < length xs"
  with False have "offset (xs ! i) < offset (xs ! j)"
    by (simp add: sorted_wrt_iff_nth_less)
  then show ?thesis by simp
qed

lemma insert_after_cursor_position:
  "sorted_wrt lt_off (c # rest) \<Longrightarrow> k < length (c # rest) \<Longrightarrow>
   offset ((c # rest) ! k) \<le> offset e \<Longrightarrow>
   (Suc k < length (c # rest) \<longrightarrow> offset e < offset ((c # rest) ! Suc k)) \<Longrightarrow>
   insert_after_cursor e c rest = take (Suc k) (c # rest) @ e # drop (Suc k) (c # rest)"
proof (induction rest arbitrary: c k)
  case Nil
  then show ?case by simp
next
  case (Cons p r)
  show ?case
  proof (cases k)
    case 0
    with Cons.prems show ?thesis by simp
  next
    case (Suc k')
    have "offset ((p # r) ! 0) \<le> offset ((p # r) ! k')"
      by (rule sorted_nth_mono) (use Cons.prems Suc in auto)
    with Cons.prems Suc have le: "offset p \<le> offset e" by simp
    have "insert_after_cursor e p r = take (Suc k') (p # r) @ e # drop (Suc k') (p # r)"
      by (rule Cons.IH) (use Cons.prems Suc in auto)
    with le Suc show ?thesis by simp
  qed
qed

lemma insert_block_position:
  assumes "sorted_wrt lt_off head" "k < length head" "offset (head ! k) \<le> offset e"
    "Suc k < length head \<longrightarrow> offset e < offset (head ! Suc k)"
  shows "insert_block_by_offset head e = take (Suc k) head @ e # drop (Suc k) head"
proof -
  from assms(2) obtain c rest where h: "head = c # rest" by (cases head) auto
  from insert_after_cursor_position[of c rest k e] assms h
  show ?thesis by (simp add: insert_block_by_offset_def)
qed

lemma next_offset_drop:
  "k < length head \<Longrightarrow>
   (if Suc k < length head then offset (head ! Suc k) else len)
   = (case drop (Suc k) head of [] \<Rightarrow> len | peek # _ \<Rightarrow> offset peek)"
proof (cases "Suc k < length head")
  case True
  then have "drop (Suc k) head = head ! Suc k # drop (Suc (Suc k)) head"
    by (simp add: Cons_nth_drop_Suc)
  with True show ?thesis by simp
next
  case False
  then show ?thesis by simp
qed

lemma fulfill_orphan_loop_fill:
  "sorted_wrt lt_off head \<Longrightarrow> fits (drop k head) len \<Longrightarrow>
   fulfill_orphan_loop len cap head k = Inr res \<Longrightarrow>
   res = take k head @ fill_gaps (drop k head) len"
proof (induction len cap head k rule: fulfill_orphan_loop.induct)
  case (1 len cap head k)
  show ?case
  proof (cases "k < length head")
    case False
    with "1.prems" show ?thesis by simp
  next
    case True
    let ?entry = "head ! k"
    let ?next = "if Suc k < length head then offset (head ! Suc k) else len"
    have dk: "drop k head = ?entry # drop (Suc k) head"
      using True by (simp add: Cons_nth_drop_Suc)
    have nx: "?next = (case drop (Suc k) head of [] \<Rightarrow> len | peek # _ \<Rightarrow> offset peek)"
      by (rule next_offset_drop[OF True])
    from "1.prems"(2) dk have f: "0 < length_b ?entry" "offset ?entry + length_b ?entry \<le> ?next"
      "fits (drop (Suc k) head) len"
      by (simp_all add: nx)
    show ?thesis
    proof (cases "offset ?entry + length_b ?entry \<ge> ?next")
      case ge: True
      with "1.prems"(3) True have r: "fulfill_orphan_loop len cap head (Suc k) = Inr res"
        by (simp add: Let_def)
      from "1.IH"(1)[OF True refl refl ge "1.prems"(1) f(3) r]
      have "res = take (Suc k) head @ fill_gaps (drop (Suc k) head) len" .
      moreover have "fill_gaps (drop k head) len = ?entry # fill_gaps (drop (Suc k) head) len"
        using ge by (simp add: dk nx[symmetric] Let_def)
      ultimately show ?thesis using True by (simp add: take_Suc_conv_app_nth)
    next
      case gap: False
      let ?orphan = "\<lparr>offset = offset ?entry + length_b ?entry,
                       length_b = ?next - (offset ?entry + length_b ?entry),
                       block_type = ORPHAN_BLOCK, data_u = None\<rparr>"
      let ?head2 = "insert_block_by_offset head ?orphan"
      from "1.prems"(3) True gap have m: "malloc_ok cap head"
        by (auto simp: Let_def split: if_splits)
      with "1.prems"(3) True gap have r: "fulfill_orphan_loop len cap ?head2 k = Inr res"
        by (simp add: Let_def)
      have pos: "?head2 = take (Suc k) head @ ?orphan # drop (Suc k) head"
        by (rule insert_block_position[OF "1.prems"(1) True]) (use gap in \<open>auto split: if_splits\<close>)
      have s2: "sorted_wrt lt_off ?head2"
      proof -
        have "\<forall>x\<in>set (take (Suc k) head). offset x < offset ?orphan"
        proof
          fix x assume "x \<in> set (take (Suc k) head)"
          then obtain i where i: "i < Suc k" "x = head ! i"
            using True by (auto simp: in_set_conv_nth)
          with sorted_nth_mono[OF "1.prems"(1), of i k] True f(1)
          show "offset x < offset ?orphan" by simp
        qed
        moreover have "\<forall>y\<in>set (drop (Suc k) head). offset ?orphan < offset y"
        proof
          fix y assume "y \<in> set (drop (Suc k) head)"
          then obtain j where j: "j < length head - Suc k" "y = head ! (Suc k + j)"
            by (auto simp: in_set_conv_nth)
          then have sk: "Suc k < length head" by simp
          from sorted_nth_mono[OF "1.prems"(1), of "Suc k" "Suc k + j"] j
          have "offset (head ! Suc k) \<le> offset y" by simp
          with gap sk show "offset ?orphan < offset y" by simp
        qed
        moreover have "sorted_wrt lt_off (take (Suc k) head)" "sorted_wrt lt_off (drop (Suc k) head)"
          using "1.prems"(1) by (simp_all add: sorted_wrt_take sorted_wrt_drop)
        moreover have "\<forall>x\<in>set (take (Suc k) head). \<forall>y\<in>set (drop (Suc k) head). offset x < offset y"
          using calculation(1,2) by fastforce
        ultimately show ?thesis by (simp add: pos sorted_wrt_append)
      qed
      have tk: "take k ?head2 = take k head"
        using True by (simp add: pos)
      have dk2: "drop k ?head2 = ?entry # ?orphan # drop (Suc k) head"
        using True by (simp add: pos take_Suc_conv_app_nth)
      have f2: "fits (drop k ?head2) len"
        using f gap by (simp only: dk2) (simp add: nx)
      from "1.IH"(2)[OF True refl refl gap _ s2 f2 r] m
      have "res = take k ?head2 @ fill_gaps (drop k ?head2) len" by simp
      moreover have "fill_gaps (drop k ?head2) len = ?entry # ?orphan # fill_gaps (drop (Suc k) head) len"
        using gap by (simp only: dk2) (simp add: nx Let_def)
      moreover have "fill_gaps (drop k head) len = ?entry # ?orphan # fill_gaps (drop (Suc k) head) len"
        using gap by (simp add: dk nx[symmetric] Let_def)
      ultimately show ?thesis by (simp add: tk)
    qed
  qed
qed

lemma tiles_fill_gaps_next:
  "fits bs len \<Longrightarrow>
   tiles (case bs of [] \<Rightarrow> len | peek # _ \<Rightarrow> offset peek) (fill_gaps bs len) len"
proof (induction bs)
  case Nil
  then show ?case by simp
next
  case (Cons b rest)
  define next_offset where "next_offset = (case rest of [] \<Rightarrow> len | peek # _ \<Rightarrow> offset peek)"
  from Cons have IH: "tiles next_offset (fill_gaps rest len) len"
    by (simp add: next_offset_def)
  from Cons.prems have p: "0 < length_b b" "offset b + length_b b \<le> next_offset"
    by (simp_all add: next_offset_def)
  have "tiles (offset b) (fill_gaps (b # rest) len) len"
  proof (cases "offset b + length_b b \<ge> next_offset")
    case True
    with p have "offset b + length_b b = next_offset" by simp
    with IH p True show ?thesis by (simp add: next_offset_def[symmetric])
  next
    case False
    with IH p show ?thesis by (simp add: next_offset_def[symmetric])
  qed
  then show ?case by simp
qed

lemma tiles_fill_gaps:
  "fits bs len \<Longrightarrow> bs \<noteq> [] \<Longrightarrow> tiles (offset (hd bs)) (fill_gaps bs len) len"
  using tiles_fill_gaps_next[of bs len] by (cases bs) simp_all

lemma tiles_nth:
  "tiles start bs len \<Longrightarrow> Suc i < length bs \<Longrightarrow>
   offset (bs ! Suc i) = offset (bs ! i) + length_b (bs ! i)"
proof (induction bs arbitrary: start i)
  case Nil
  then show ?case by simp
next
  case (Cons b bs)
  show ?case
  proof (cases i)
    case 0
    with Cons.prems show ?thesis by (cases bs) auto
  next
    case (Suc j)
    with Cons.prems Cons.IH[of "start + length_b b" j] show ?thesis by simp
  qed
qed

lemma tiles_last:
  "tiles start bs len \<Longrightarrow> bs \<noteq> [] \<Longrightarrow> offset (last bs) + length_b (last bs) = len"
  by (induction bs arbitrary: start) (auto split: if_splits)

lemma tiles_lower:
  "tiles start bs len \<Longrightarrow> \<forall>b\<in>set bs. start \<le> offset b"
  by (induction bs arbitrary: start) fastforce+

lemma tiles_sorted:
  "tiles start bs len \<Longrightarrow> sorted_wrt (<) (map offset bs)"
proof (induction bs arbitrary: start)
  case Nil
  then show ?case by simp
next
  case (Cons b bs)
  from Cons.prems have t: "tiles (start + length_b b) bs len" and p: "0 < length_b b"
    and o: "offset b = start" by auto
  from tiles_lower[OF t] p o have "\<forall>x\<in>set bs. offset b < offset x" by fastforce
  with Cons.IH[OF t] show ?case by simp
qed

subsection \<open>Every block is stored once, and discovery returns\<close>

lemma discovered_nth_lower:
  "discovered len head \<Longrightarrow> i < length head \<Longrightarrow> 4 * i \<le> offset (head ! i)"
proof (induction i)
  case 0
  then show ?case by simp
next
  case (Suc i)
  then have le: "4 * i \<le> offset (head ! i)" by simp
  from Suc.prems have "offset (head ! i) < offset (head ! Suc i)"
    by (simp add: discovered_def sorted_wrt_iff_nth_less)
  moreover from Suc.prems have "4 dvd offset (head ! i)" "4 dvd offset (head ! Suc i)"
    by (auto simp: discovered_def)
  ultimately have "offset (head ! i) + 4 \<le> offset (head ! Suc i)"
    by (auto elim!: dvdE)
  with le show ?case by simp
qed

lemma discovered_length_le:
  assumes "discovered len head"
  shows "length head \<le> len div 4"
proof -
  from assms have ne: "head \<noteq> []" by (simp add: discovered_def)
  then have l: "length head - 1 < length head" by simp
  from discovered_nth_lower[OF assms l] have "4 * (length head - 1) \<le> offset (last head)"
    using ne by (simp add: last_conv_nth)
  moreover from assms ne have "4 \<le> length_b (last head)"
    "offset (last head) + length_b (last head) \<le> len"
    by (auto simp: discovered_def)
  ultimately have "4 * length head \<le> len" using ne by (cases head) auto
  then show ?thesis by simp
qed

lemma length_insert_block_by_offset:
  "length (insert_block_by_offset head e) = Suc (length head)"
proof -
  have "length (insert_after_cursor e c r) = Suc (Suc (length r))" for c r
    by (induction r arbitrary: c) auto
  then show ?thesis by (simp add: insert_block_by_offset_def split: list.splits)
qed

lemma grown_step:
  "\<forall>h e. (discovered len h \<and> n \<le> length h) \<longrightarrow> new_block_ok len cap h e \<longrightarrow>
     (discovered len (insert_block_by_offset h e) \<and> n \<le> length (insert_block_by_offset h e))"
  using discovered_step[of len cap] by (auto simp: length_insert_block_by_offset)


lemma detect_returns:
  shows "discovered len head \<Longrightarrow> 4 dvd directory_offset \<Longrightarrow>
     len div 4 \<le> depth + length head \<Longrightarrow>
     detect_ieee1212_directory_entries depth data len cap directory_offset directory_length
       parent_p head \<noteq> None"
  and "discovered len head \<Longrightarrow> 4 dvd directory_offset \<Longrightarrow> 0 < directory_offset \<Longrightarrow>
     len div 4 \<le> depth + length head \<Longrightarrow>
     detect_entries_loop depth data len cap directory_offset is parent_p head \<noteq> None"
  and "discovered len head \<Longrightarrow> 4 dvd block_offset \<Longrightarrow> 0 < block_offset \<Longrightarrow>
     4 \<le> block_length \<Longrightarrow> block_offset + block_length \<le> len \<Longrightarrow>
     len div 4 \<le> depth + length head \<Longrightarrow>
     detect_ieee1212_directory_block depth data len cap block_offset block_length key
       parent_p head \<noteq> None"
proof (induction depth data len cap directory_offset directory_length parent_p head
         and depth data len cap directory_offset "is" parent_p head
         and depth data len cap block_offset block_length key parent_p head
       rule: detect_ieee1212_directory_entries_detect_entries_loop_detect_ieee1212_directory_block.induct)
  case (1 depth data len cap directory_offset directory_length parent_p head)
  then show ?case by simp
next
  case (2 depth data len cap directory_offset parent_p head)
  then show ?case by simp
next
  case (3 depth data len cap directory_offset i "is" parent_p head)
  let ?eo = "directory_offset + i * 4"
  obtain kt key val where dec: "decode_directory_entry (quadlet_at data ?eo) = (kt, key, val)"
    by (cases "decode_directory_entry (quadlet_at data ?eo)") auto
  show ?case
  proof (cases "kt = KEY_TYPE_LEAF \<or> kt = KEY_TYPE_DIRECTORY")
    case False
    from "3.IH"(3)[OF refl refl refl dec[symmetric] refl False "3.prems"]
    show ?thesis using dec False by (simp add: Let_def)
  next
    case True
    let ?bo = "?eo + 4 * unat val"
    show ?thesis
    proof (cases "len \<le> ?bo")
      case True
      with dec \<open>kt = KEY_TYPE_LEAF \<or> kt = KEY_TYPE_DIRECTORY\<close> show ?thesis
        by (simp add: Let_def)
    next
      case lt: False
      show ?thesis
      proof (cases "detect_ieee1212_block_length data len ?bo")
        case (Inl err)
        with dec True lt show ?thesis by (simp add: Let_def)
      next
        case (Inr bl)
        have bo4: "4 dvd ?bo" using "3.prems"(2) by simp
        have bo0: "0 < ?bo" using "3.prems"(3) by simp
        from block_length_props[OF Inr] have bl4: "4 \<le> bl" and blen: "?bo + bl \<le> len" by auto
        let ?inner = "(if kt = KEY_TYPE_LEAF
            then Some (detect_ieee1212_leaf_block cap ?bo bl key parent_p head)
            else detect_ieee1212_directory_block depth data len cap ?bo bl key parent_p head)"
        have inner_ne: "?inner \<noteq> None"
        proof (cases "kt = KEY_TYPE_LEAF")
          case True
          then show ?thesis by simp
        next
          case False
          from "3.IH"(1)[OF refl refl refl dec[symmetric] refl True refl lt Inr False
              "3.prems"(1) bo4 bo0 bl4 blen "3.prems"(4)] False
          show ?thesis by simp
        qed
        then obtain x2 where x2: "?inner = Some x2" by blast
        show ?thesis
        proof (cases x2)
          case (Inl err)
          with dec True lt Inr x2 show ?thesis by (simp add: Let_def)
        next
          case h1: (Inr h1)
          let ?I = "\<lambda>h. discovered len h \<and> length head \<le> length h"
          have I0: "?I head" using "3.prems"(1) by simp
          have "?I h1"
          proof (cases "kt = KEY_TYPE_LEAF")
            case True
            with x2 h1 have "detect_ieee1212_leaf_block cap ?bo bl key parent_p head = Inr h1"
              by simp
            then show ?thesis
            proof (cases rule: leaf_block_cases)
              case 1
              with I0 show ?thesis by simp
            next
              case 2
              have "new_block_ok len cap head \<lparr>offset = ?bo, length_b = bl,
                  block_type = IEEE1212_LEAF_BLOCK,
                  data_u = Some \<lparr>key_id = key, parent = parent_p\<rparr>\<rparr>"
                using 2 bo4 bo0 bl4 blen by (simp add: new_block_ok_def)
              with grown_step[of len "length head" cap] I0 2(1) show ?thesis by blast
            qed
          next
            case False
            with x2 h1 have "detect_ieee1212_directory_block depth data len cap ?bo bl key
                parent_p head = Some (Inr h1)" by simp
            from detect_preserves(3)[where I="?I", OF grown_step I0 bo4 bo0 bl4 blen this]
            show ?thesis .
          qed
          then have d1: "discovered len h1" and "len div 4 \<le> depth + length h1"
            using "3.prems"(4) by auto
          from "3.IH"(2)[OF refl refl refl dec[symmetric] refl True refl lt Inr x2 h1 d1
              "3.prems"(2,3) this(2)]
          show ?thesis using dec True lt Inr x2 h1 by (simp add: Let_def)
        qed
      qed
    qed
  qed
next
  case (4 depth data len cap block_offset block_length key parent_p head)
  let ?e = "\<lparr>offset = block_offset, length_b = block_length,
                   block_type = IEEE1212_DIRECTORY_BLOCK,
                   data_u = Some \<lparr>key_id = key, parent = parent_p\<rparr>\<rparr>"
  show ?case
  proof (cases "list_ex (\<lambda>entry. offset entry = block_offset) head \<or> \<not> malloc_ok cap head")
    case True
    then show ?thesis by auto
  next
    case False
    then have np: "\<not> list_ex (\<lambda>entry. offset entry = block_offset) head"
      and m: "malloc_ok cap head" by auto
    have "new_block_ok len cap head ?e"
      using np m "4.prems" by (simp add: new_block_ok_def)
    with discovered_step[of len cap] "4.prems"(1)
    have d2: "discovered len (insert_block_by_offset head ?e)" by blast
    from discovered_length_le[OF d2] have "Suc (length head) \<le> len div 4"
      by (simp add: length_insert_block_by_offset)
    with "4.prems"(6) obtain d where d: "depth = Suc d" by (cases depth) auto
    have "len div 4 \<le> d + length (insert_block_by_offset head ?e)"
      using "4.prems"(6) d by (simp add: length_insert_block_by_offset)
    from "4.IH"[OF np _ d d2 "4.prems"(2) this] m
    show ?thesis using np m d by simp
  qed
qed

lemma detect_blocks_returns:
  assumes "len div 4 \<le> depth + 2"
  shows "detect_ieee1212_blocks depth data len cap [] \<noteq> None"
proof (cases "detect_ieee1212_bus_info_block_length data len 0")
  case (Inl e)
  then show ?thesis by (simp add: detect_ieee1212_blocks_def)
next
  case (Inr bl)
  let ?bus = "\<lparr>offset = 0, length_b = bl, block_type = IEEE1212_BUS_INFO_BLOCK, data_u = None\<rparr>"
  from bus_info_length_props[OF Inr] have b: "4 \<le> bl" "bl \<le> len" "4 dvd bl" by auto
  show ?thesis
  proof (cases "malloc_ok cap []")
    case False
    with Inr show ?thesis
      by (simp add: detect_ieee1212_blocks_def detect_ieee1212_bus_info_block_def)
  next
    case m0: True
    then have h1: "detect_ieee1212_bus_info_block cap 0 bl [] = Inr [?bus]"
      by (simp add: detect_ieee1212_bus_info_block_def insert_block_by_offset_def)
    show ?thesis
    proof (cases "detect_ieee1212_block_length data len bl")
      case (Inl e)
      with Inr h1 show ?thesis by (simp add: detect_ieee1212_blocks_def)
    next
      case rl: (Inr rl)
      let ?root = "\<lparr>offset = bl, length_b = rl, block_type = IEEE1212_ROOT_DIRECTORY_BLOCK,
                data_u = None\<rparr>"
      from block_length_props[OF rl] have rp: "4 \<le> rl" "bl + rl \<le> len" by auto
      have "discovered len [?bus]" using b by (simp add: discovered_def)
      then have d: "discovered len (insert_block_by_offset [?bus] ?root)"
        by (rule discovered_insert) (use b rp in auto)
      have "len div 4 \<le> depth + length (insert_block_by_offset [?bus] ?root)"
        using assms by (simp add: length_insert_block_by_offset)
      from detect_returns(1)[OF d b(3) this]
      show ?thesis using Inr h1 rl
        by (simp add: detect_ieee1212_blocks_def detect_ieee1212_root_directory_block_def)
    qed
  qed
qed

lemma detect_keeps:
  fixes I :: "ieee1212_block list \<Rightarrow> bool"
  shows "(\<forall>h e. I h \<longrightarrow> I (insert_block_by_offset h e)) \<Longrightarrow> I head \<Longrightarrow>
     detect_ieee1212_directory_entries depth data len cap directory_offset directory_length
       parent_p head = Some (Inr head') \<Longrightarrow> I head'"
  and "(\<forall>h e. I h \<longrightarrow> I (insert_block_by_offset h e)) \<Longrightarrow> I head \<Longrightarrow>
     detect_entries_loop depth data len cap directory_offset is parent_p head
       = Some (Inr head') \<Longrightarrow> I head'"
  and "(\<forall>h e. I h \<longrightarrow> I (insert_block_by_offset h e)) \<Longrightarrow> I head \<Longrightarrow>
     detect_ieee1212_directory_block depth data len cap block_offset block_length key
       parent_p head = Some (Inr head') \<Longrightarrow> I head'"
proof (induction depth data len cap directory_offset directory_length parent_p head
         and depth data len cap directory_offset "is" parent_p head
         and depth data len cap block_offset block_length key parent_p head
       arbitrary: head' and head' and head'
       rule: detect_ieee1212_directory_entries_detect_entries_loop_detect_ieee1212_directory_block.induct)
  case (1 depth data len cap directory_offset directory_length parent_p head)
  then show ?case by simp
next
  case (2 depth data len cap directory_offset parent_p head)
  then show ?case by simp
next
  case (3 depth data len cap directory_offset i "is" parent_p head)
  let ?eo = "directory_offset + i * 4"
  obtain kt key val where dec: "decode_directory_entry (quadlet_at data ?eo) = (kt, key, val)"
    by (cases "decode_directory_entry (quadlet_at data ?eo)") auto
  note step = "3.prems"(1)
  show ?case
  proof (cases "kt = KEY_TYPE_LEAF \<or> kt = KEY_TYPE_DIRECTORY")
    case False
    with "3.prems" dec have "detect_entries_loop depth data len cap directory_offset is parent_p head
       = Some (Inr head')" by (simp add: Let_def)
    from "3.IH"(3)[OF refl refl refl dec[symmetric] refl False step "3.prems"(2) this]
    show ?thesis .
  next
    case True
    let ?bo = "?eo + 4 * unat val"
    from "3.prems"(3) dec True have lt: "\<not> len \<le> ?bo"
      by (auto simp: Let_def split: if_splits)
    from "3.prems"(3) dec True lt obtain bl where
      bl: "detect_ieee1212_block_length data len ?bo = Inr bl"
      by (auto simp: Let_def split: if_splits sum.splits)
    let ?inner = "(if kt = KEY_TYPE_LEAF
            then Some (detect_ieee1212_leaf_block cap ?bo bl key parent_p head)
            else detect_ieee1212_directory_block depth data len cap ?bo bl key parent_p head)"
    from "3.prems"(3) dec True lt bl obtain h1 where
      inner: "?inner = Some (Inr h1)" and
      rest: "detect_entries_loop depth data len cap directory_offset is parent_p h1 = Some (Inr head')"
      by (auto simp: Let_def split: if_splits sum.splits option.splits)
    have "I h1"
    proof (cases "kt = KEY_TYPE_LEAF")
      case True
      with inner have "detect_ieee1212_leaf_block cap ?bo bl key parent_p head = Inr h1" by simp
      then show ?thesis
        by (cases rule: leaf_block_cases) (use step "3.prems"(2) in auto)
    next
      case False
      with inner have "detect_ieee1212_directory_block depth data len cap ?bo bl key parent_p head
          = Some (Inr h1)" by simp
      from "3.IH"(1)[OF refl refl refl dec[symmetric] refl True refl lt bl False step
            "3.prems"(2) this]
      show ?thesis .
    qed
    from "3.IH"(2)[OF refl refl refl dec[symmetric] refl True refl lt bl inner refl step
          this rest]
    show ?thesis .
  qed
next
  case (4 depth data len cap block_offset block_length key parent_p head)
  let ?e = "\<lparr>offset = block_offset, length_b = block_length,
                   block_type = IEEE1212_DIRECTORY_BLOCK,
                   data_u = Some \<lparr>key_id = key, parent = parent_p\<rparr>\<rparr>"
  show ?case
  proof (cases "list_ex (\<lambda>entry. offset entry = block_offset) head")
    case True
    with "4.prems" show ?thesis by simp
  next
    case False
    with "4.prems"(3) have m: "malloc_ok cap head" by (auto split: if_splits)
    with "4.prems"(3) False obtain d where d: "depth = Suc d"
      by (cases depth) auto
    with "4.prems"(3) False m have r: "detect_ieee1212_directory_entries d data len cap block_offset
               block_length (Some block_offset) (insert_block_by_offset head ?e) = Some (Inr head')"
      by simp
    from "4.prems"(1,2) have "I (insert_block_by_offset head ?e)" by blast
    from "4.IH"[OF False _ d "4.prems"(1) this r] m
    show ?thesis by simp
  qed
qed

lemma set_insert_block_by_offset:
  "set (insert_block_by_offset head e) = insert e (set head)"
  by (auto simp: insert_block_by_offset_def set_insert_after_cursor split: list.splits)

lemma superset_step:
  "\<forall>h e. S \<subseteq> set h \<longrightarrow> S \<subseteq> set (insert_block_by_offset h e)"
  by (auto simp: set_insert_block_by_offset)


section \<open>Visits and parents\<close>

lemma entries_materialized_iff:
  "entries_materialized data head p \<longleftrightarrow>
   (\<forall>j<entry_count p. \<forall>kt key t. entry_target data (offset p, j) = Some (kt, key, t) \<longrightarrow>
      t \<in> offset ` set head)"
  by (fastforce simp: entries_materialized_def list_all_iff list_ex_iff image_iff
      split: option.splits)

lemma entries_materialized_mono:
  "set h \<subseteq> set h' \<Longrightarrow> entries_materialized data h p \<Longrightarrow> entries_materialized data h' p"
  unfolding entries_materialized_iff by blast

lemma discovered_by_mono:
  "set h \<subseteq> set h' \<Longrightarrow> discovered_by data h v b \<Longrightarrow> discovered_by data h' v b"
  unfolding discovered_by_def list_ex_iff by blast

lemma discovery_step_refl: "discovery_step data h [] h"
  by (simp add: discovery_step_def)

lemma find_append_cases:
  "find P (xs @ ys) = (case find P xs of None \<Rightarrow> find P ys | Some x \<Rightarrow> Some x)"
  by (induction xs) auto

lemma discovery_step_trans:
  assumes 1: "discovery_step data h tr1 h1" and 2: "discovery_step data h1 tr2 h'"
  shows "discovery_step data h (tr1 @ tr2) h'"
proof -
  have sub: "set h \<subseteq> set h1" "set h1 \<subseteq> set h'"
    using 1 2 by (auto simp: discovery_step_def)
  have tg: "\<forall>v\<in>set (tr1 @ tr2). \<exists>t. refers data t v \<and> t \<in> offset ` set h'"
    using 1 2 sub unfolding discovery_step_def by (auto; blast)
  have new: "offset b \<notin> offset ` set h \<and>
         (\<exists>v. find (refers data (offset b)) (tr1 @ tr2) = Some v \<and> discovered_by data h' v b) \<and>
         (block_type b = IEEE1212_DIRECTORY_BLOCK \<longrightarrow> entries_materialized data h' b)"
    if b: "b \<in> set h' - set h" for b
  proof (cases "b \<in> set h1")
    case True
    with b 1 have o: "offset b \<notin> offset ` set h"
      and "\<exists>v. find (refers data (offset b)) tr1 = Some v \<and> discovered_by data h1 v b"
      and m: "block_type b = IEEE1212_DIRECTORY_BLOCK \<longrightarrow> entries_materialized data h1 b"
      unfolding discovery_step_def by blast+
    then obtain v where "find (refers data (offset b)) tr1 = Some v" "discovered_by data h1 v b"
      by blast
    with sub(2) have "find (refers data (offset b)) (tr1 @ tr2) = Some v" "discovered_by data h' v b"
      by (simp_all add: find_append_cases discovered_by_mono)
    with o m sub(2) show ?thesis by (auto intro: entries_materialized_mono)
  next
    case False
    with b have "b \<in> set h' - set h1" by simp
    with 2 have o1: "offset b \<notin> offset ` set h1"
      and "\<exists>v. find (refers data (offset b)) tr2 = Some v \<and> discovered_by data h' v b"
      and m: "block_type b = IEEE1212_DIRECTORY_BLOCK \<longrightarrow> entries_materialized data h' b"
      unfolding discovery_step_def by blast+
    then obtain v where v: "find (refers data (offset b)) tr2 = Some v" "discovered_by data h' v b"
      by blast
    have "find (refers data (offset b)) tr1 = None"
    proof (rule ccontr)
      assume "find (refers data (offset b)) tr1 \<noteq> None"
      then obtain w where "w \<in> set tr1" "refers data (offset b) w"
        by (auto simp: find_None_iff)
      moreover from 1 \<open>w \<in> set tr1\<close> obtain t where "refers data t w" "t \<in> offset ` set h1"
        unfolding discovery_step_def by blast
      ultimately have "offset b \<in> offset ` set h1"
        by (auto simp: refers_def split: option.splits)
      with o1 show False by simp
    qed
    with v have "find (refers data (offset b)) (tr1 @ tr2) = Some v"
      by (simp add: find_append_cases)
    moreover from o1 sub(1) have "offset b \<notin> offset ` set h" by auto
    ultimately show ?thesis using v(2) m by blast
  qed
  from sub tg new show ?thesis unfolding discovery_step_def by blast
qed

lemma discovery_step_present:
  assumes "entry_target data v = Some (kt, key, bo)"
    and "list_ex (\<lambda>entry. offset entry = bo) head"
  shows "discovery_step data head [v] head"
  using assms by (auto simp: discovery_step_def refers_def list_ex_iff)

lemma discovery_step_new:
  assumes et: "entry_target data v = Some (kt, key, bo)"
    and valid: "list_ex (\<lambda>p. offset p = fst v \<and> is_directory p \<and> snd v < entry_count p) head"
    and absent: "\<not> list_ex (\<lambda>entry. offset entry = bo) head"
    and e: "e = \<lparr>offset = bo, length_b = bl,
                 block_type = (if kt = KEY_TYPE_LEAF then IEEE1212_LEAF_BLOCK
                               else IEEE1212_DIRECTORY_BLOCK),
                 data_u = Some \<lparr>key_id = key, parent = Some (fst v)\<rparr>\<rparr>"
    and step: "discovery_step data (insert_block_by_offset head e) tr h1"
    and mat: "block_type e = IEEE1212_DIRECTORY_BLOCK \<longrightarrow> entries_materialized data h1 e"
  shows "discovery_step data head (v # tr) h1"
proof -
  let ?h = "insert_block_by_offset head e"
  have sub: "set head \<subseteq> set ?h" "set ?h \<subseteq> set h1" "e \<in> set h1"
    using step by (auto simp: discovery_step_def set_insert_block_by_offset)
  have rv: "refers data bo v" using et by (simp add: refers_def)
  have oe: "offset e = bo" by (simp add: e)
  have tg: "\<forall>w\<in>set (v # tr). \<exists>t. refers data t w \<and> t \<in> offset ` set h1"
    using step rv sub(3) oe unfolding discovery_step_def by (auto; blast)
  have de: "discovered_by data h1 v e"
    using valid sub et by (auto simp: discovered_by_def list_ex_iff e)
  have new: "offset b \<notin> offset ` set head \<and>
         (\<exists>w. find (refers data (offset b)) (v # tr) = Some w \<and> discovered_by data h1 w b) \<and>
         (block_type b = IEEE1212_DIRECTORY_BLOCK \<longrightarrow> entries_materialized data h1 b)"
    if b: "b \<in> set h1 - set head" for b
  proof (cases "b = e")
    case True
    with absent oe rv de mat show ?thesis by (auto simp: list_ex_iff)
  next
    case False
    with b have "b \<in> set h1 - set ?h" by (simp add: set_insert_block_by_offset)
    with step have o: "offset b \<notin> offset ` set ?h"
      and "\<exists>w. find (refers data (offset b)) tr = Some w \<and> discovered_by data h1 w b"
      and m: "block_type b = IEEE1212_DIRECTORY_BLOCK \<longrightarrow> entries_materialized data h1 b"
      unfolding discovery_step_def by blast+
    then obtain w where w: "find (refers data (offset b)) tr = Some w" "discovered_by data h1 w b"
      by blast
    from o have "offset b \<noteq> bo" "offset b \<notin> offset ` set head"
      using oe by (auto simp: set_insert_block_by_offset)
    moreover from this(1) et have "\<not> refers data (offset b) v" by (simp add: refers_def)
    ultimately show ?thesis using w m by simp
  qed
  from sub tg new show ?thesis unfolding discovery_step_def by blast
qed

lemma detect_visits:
  shows "parent_p = Some directory_offset \<Longrightarrow>
     \<exists>p\<in>set head. offset p = directory_offset \<and> is_directory p \<and>
        length_b p = directory_length \<Longrightarrow>
     detect_ieee1212_directory_entries depth data len cap directory_offset directory_length
       parent_p head = Some (Inr head') \<Longrightarrow>
     discovery_step data head
       (detect_ieee1212_directory_entries_visits depth data len cap directory_offset
          directory_length parent_p head) head' \<and>
     (\<forall>j<(directory_length - 4) div 4. \<forall>kt key t.
        entry_target data (directory_offset, j) = Some (kt, key, t) \<longrightarrow>
        t \<in> offset ` set head')"
  and "4 \<le> directory_offset \<Longrightarrow> parent_p = Some (directory_offset - 4) \<Longrightarrow>
     \<exists>p\<in>set head. offset p = directory_offset - 4 \<and> is_directory p \<and>
        (\<forall>j\<in>set is. j < entry_count p) \<Longrightarrow>
     detect_entries_loop depth data len cap directory_offset is parent_p head
       = Some (Inr head') \<Longrightarrow>
     discovery_step data head
       (detect_entries_loop_visits depth data len cap directory_offset is parent_p head) head' \<and>
     (\<forall>j\<in>set is. \<forall>kt key t.
        entry_target data (directory_offset - 4, j) = Some (kt, key, t) \<longrightarrow>
        t \<in> offset ` set head')"
  and "detect_ieee1212_directory_block depth data len cap block_offset block_length key
       parent_p head = Some (Inr head') \<Longrightarrow>
     (if list_ex (\<lambda>entry. offset entry = block_offset) head
      then head' = head \<and>
           detect_ieee1212_directory_block_visits depth data len cap block_offset block_length
             key parent_p head = []
      else discovery_step data
             (insert_block_by_offset head
                \<lparr>offset = block_offset, length_b = block_length,
                 block_type = IEEE1212_DIRECTORY_BLOCK,
                 data_u = Some \<lparr>key_id = key, parent = parent_p\<rparr>\<rparr>)
             (detect_ieee1212_directory_block_visits depth data len cap block_offset
                block_length key parent_p head) head' \<and>
           entries_materialized data head'
             \<lparr>offset = block_offset, length_b = block_length,
              block_type = IEEE1212_DIRECTORY_BLOCK,
              data_u = Some \<lparr>key_id = key, parent = parent_p\<rparr>\<rparr>)"
proof (induction depth data len cap directory_offset directory_length parent_p head
         and depth data len cap directory_offset "is" parent_p head
         and depth data len cap block_offset block_length key parent_p head
       arbitrary: head' and head' and head'
       rule: detect_ieee1212_directory_entries_detect_entries_loop_detect_ieee1212_directory_block.induct)
  case (1 depth data len cap directory_offset directory_length parent_p head)
  from "1.prems"(2) have pre: "\<exists>p\<in>set head. offset p = directory_offset + 4 - 4 \<and> is_directory p \<and>
        (\<forall>j\<in>set [0..<(directory_length - 4) div 4]. j < entry_count p)"
    by (auto simp: entry_count_def)
  from "1.prems"(3) have r: "detect_entries_loop depth data len cap (directory_offset + 4)
       [0..<(directory_length - 4) div 4] parent_p head = Some (Inr head')" by simp
  from "1.IH"[OF _ _ pre r] "1.prems"(1) show ?case by simp
next
  case (2 depth data len cap directory_offset parent_p head)
  then show ?case by (simp add: discovery_step_refl)
next
  case (3 depth data len cap directory_offset i "is" parent_p head)
  let ?eo = "directory_offset + i * 4"
  let ?v = "(directory_offset - 4, i)"
  obtain kt key val where dec: "decode_directory_entry (quadlet_at data ?eo) = (kt, key, val)"
    by (cases "decode_directory_entry (quadlet_at data ?eo)") auto
  have eo: "fst ?v + 4 + snd ?v * 4 = ?eo" using "3.prems"(1) by simp
  from "3.prems"(3) have pre_is: "\<exists>p\<in>set head. offset p = directory_offset - 4 \<and> is_directory p \<and>
        (\<forall>j\<in>set is. j < entry_count p)" by auto
  show ?case
  proof (cases "kt = KEY_TYPE_LEAF \<or> kt = KEY_TYPE_DIRECTORY")
    case False
    with "3.prems" dec have r: "detect_entries_loop depth data len cap directory_offset is parent_p head
       = Some (Inr head')" by (simp add: Let_def)
    have et: "entry_target data ?v = None"
      using False dec eo by (simp add: entry_target_def Let_def)
    from "3.IH"(3)[OF refl refl refl dec[symmetric] refl False "3.prems"(1,2) pre_is r] et False dec
    show ?thesis by (simp add: Let_def)
  next
    case True
    let ?bo = "?eo + 4 * unat val"
    from "3.prems"(4) dec True have lt: "\<not> len \<le> ?bo"
      by (auto simp: Let_def split: if_splits)
    from "3.prems"(4) dec True lt obtain bl where
      bl: "detect_ieee1212_block_length data len ?bo = Inr bl"
      by (auto simp: Let_def split: if_splits sum.splits)
    let ?inner = "(if kt = KEY_TYPE_LEAF
            then Some (detect_ieee1212_leaf_block cap ?bo bl key parent_p head)
            else detect_ieee1212_directory_block depth data len cap ?bo bl key parent_p head)"
    let ?itr = "(if kt = KEY_TYPE_LEAF then []
                 else detect_ieee1212_directory_block_visits depth data len cap ?bo bl key
                        parent_p head)"
    from "3.prems"(4) dec True lt bl obtain h1 where
      inner: "?inner = Some (Inr h1)" and
      rest: "detect_entries_loop depth data len cap directory_offset is parent_p h1 = Some (Inr head')"
      by (auto simp: Let_def split: if_splits sum.splits option.splits)
    have et: "entry_target data ?v = Some (kt, key, ?bo)"
      using True dec eo by (simp add: entry_target_def Let_def)
    have valid: "list_ex (\<lambda>p. offset p = fst ?v \<and> is_directory p \<and> snd ?v < entry_count p) head"
      using "3.prems"(3) by (auto simp: list_ex_iff)
    have pp: "parent_p = Some (fst ?v)" using "3.prems"(2) by simp
    have A: "discovery_step data head (?v # ?itr) h1"
    proof (cases "kt = KEY_TYPE_LEAF")
      case True
      with inner have "detect_ieee1212_leaf_block cap ?bo bl key parent_p head = Inr h1" by simp
      then show ?thesis
      proof (cases rule: leaf_block_cases)
        case 1
        with discovery_step_present[OF et 1(2)] True show ?thesis by simp
      next
        case 2
        let ?e = "\<lparr>offset = ?bo, length_b = bl, block_type = IEEE1212_LEAF_BLOCK,
              data_u = Some \<lparr>key_id = key, parent = parent_p\<rparr>\<rparr>"
        have "discovery_step data head (?v # []) h1"
        proof (rule discovery_step_new[OF et valid 2(2), where e = ?e and bl = bl])
          show "?e = \<lparr>offset = ?bo, length_b = bl,
                 block_type = (if kt = KEY_TYPE_LEAF then IEEE1212_LEAF_BLOCK
                               else IEEE1212_DIRECTORY_BLOCK),
                 data_u = Some \<lparr>key_id = key, parent = Some (fst ?v)\<rparr>\<rparr>"
            using True pp by simp
          show "discovery_step data (insert_block_by_offset head ?e) [] h1"
            using 2(1) by (simp add: discovery_step_refl)
          show "block_type ?e = IEEE1212_DIRECTORY_BLOCK \<longrightarrow> entries_materialized data h1 ?e"
            by simp
        qed
        with True show ?thesis by simp
      qed
    next
      case False
      let ?e = "\<lparr>offset = ?bo, length_b = bl, block_type = IEEE1212_DIRECTORY_BLOCK,
              data_u = Some \<lparr>key_id = key, parent = parent_p\<rparr>\<rparr>"
      from False inner have d: "detect_ieee1212_directory_block depth data len cap ?bo bl key
          parent_p head = Some (Inr h1)" by simp
      note ih = "3.IH"(1)[OF refl refl refl dec[symmetric] refl True refl lt bl False d]
      show ?thesis
      proof (cases "list_ex (\<lambda>entry. offset entry = ?bo) head")
        case True
        with ih have "h1 = head" "?itr = []" using False by simp_all
        with discovery_step_present[OF et True] show ?thesis by simp
      next
        case absent: False
        with ih have st: "discovery_step data (insert_block_by_offset head ?e)
            (detect_ieee1212_directory_block_visits depth data len cap ?bo bl key parent_p head) h1"
          and mat: "entries_materialized data h1 ?e" by simp_all
        have "discovery_step data head
            (?v # detect_ieee1212_directory_block_visits depth data len cap ?bo bl key parent_p head) h1"
        proof (rule discovery_step_new[OF et valid absent, where e = ?e and bl = bl])
          show "?e = \<lparr>offset = ?bo, length_b = bl,
                 block_type = (if kt = KEY_TYPE_LEAF then IEEE1212_LEAF_BLOCK
                               else IEEE1212_DIRECTORY_BLOCK),
                 data_u = Some \<lparr>key_id = key, parent = Some (fst ?v)\<rparr>\<rparr>"
            using False pp by simp
        qed (use st mat in simp_all)
        with False show ?thesis by simp
      qed
    qed
    then have sub: "set head \<subseteq> set h1" and tbo: "?bo \<in> offset ` set h1"
      using et by (auto simp: discovery_step_def refers_def)
    from pre_is sub have pre1: "\<exists>p\<in>set h1. offset p = directory_offset - 4 \<and> is_directory p \<and>
        (\<forall>j\<in>set is. j < entry_count p)" by blast
    note ih2 = "3.IH"(2)[OF refl refl refl dec[symmetric] refl True refl lt bl inner refl
        "3.prems"(1,2) pre1 rest]
    from ih2 have B: "discovery_step data h1
        (detect_entries_loop_visits depth data len cap directory_offset is parent_p h1) head'"
      and C: "\<forall>j\<in>set is. \<forall>kt key t.
        entry_target data (directory_offset - 4, j) = Some (kt, key, t) \<longrightarrow>
        t \<in> offset ` set head'" by simp_all
    from B have sub2: "set h1 \<subseteq> set head'" by (simp add: discovery_step_def)
    have tr: "detect_entries_loop_visits depth data len cap directory_offset (i # is) parent_p head =
        (?v # ?itr) @ detect_entries_loop_visits depth data len cap directory_offset is parent_p h1"
      using dec True lt bl inner by (simp add: Let_def)
    from discovery_step_trans[OF A B] tr
    have "discovery_step data head
       (detect_entries_loop_visits depth data len cap directory_offset (i # is) parent_p head) head'"
      by simp
    moreover have "\<forall>kt key t. entry_target data (directory_offset - 4, i) = Some (kt, key, t) \<longrightarrow>
        t \<in> offset ` set head'"
      using et tbo sub2 by auto
    ultimately show ?thesis using C by simp
  qed
next
  case (4 depth data len cap block_offset block_length key parent_p head)
  let ?e = "\<lparr>offset = block_offset, length_b = block_length,
                   block_type = IEEE1212_DIRECTORY_BLOCK,
                   data_u = Some \<lparr>key_id = key, parent = parent_p\<rparr>\<rparr>"
  show ?case
  proof (cases "list_ex (\<lambda>entry. offset entry = block_offset) head")
    case True
    with "4.prems" show ?thesis by simp
  next
    case False
    with "4.prems"(1) have m: "malloc_ok cap head" by (auto split: if_splits)
    with "4.prems"(1) False obtain d where d: "depth = Suc d"
      by (cases depth) auto
    with "4.prems"(1) False m have r: "detect_ieee1212_directory_entries d data len cap block_offset
               block_length (Some block_offset) (insert_block_by_offset head ?e) = Some (Inr head')"
      by simp
    have pre: "\<exists>p\<in>set (insert_block_by_offset head ?e). offset p = block_offset \<and> is_directory p \<and>
        length_b p = block_length"
      by (auto simp: set_insert_block_by_offset is_directory_def)
    from "4.IH"[OF False _ d refl pre r] m
    have st: "discovery_step data (insert_block_by_offset head ?e)
       (detect_ieee1212_directory_entries_visits d data len cap block_offset
          block_length (Some block_offset) (insert_block_by_offset head ?e)) head'"
      and mt: "\<forall>j<(block_length - 4) div 4. \<forall>kt key t.
        entry_target data (block_offset, j) = Some (kt, key, t) \<longrightarrow> t \<in> offset ` set head'"
      by simp_all
    from mt have "entries_materialized data head' ?e"
      by (simp add: entries_materialized_iff entry_count_def)
    with st False m d show ?thesis by simp
  qed
qed

lemma detect_blocks_visits:
  assumes "detect_ieee1212_blocks depth data len cap [] = Some (Inr head)"
  shows "references_materialized data head \<and>
         parents_are_first_discoverers data (detect_ieee1212_blocks_visits depth data len cap [])
           head"
proof -
  from assms obtain bl where bl: "detect_ieee1212_bus_info_block_length data len 0 = Inr bl"
    by (auto simp: detect_ieee1212_blocks_def split: sum.splits)
  let ?bus = "\<lparr>offset = 0, length_b = bl, block_type = IEEE1212_BUS_INFO_BLOCK, data_u = None\<rparr>"
  from assms bl have h1: "detect_ieee1212_bus_info_block cap 0 bl [] = Inr [?bus]"
    by (auto simp: detect_ieee1212_blocks_def detect_ieee1212_bus_info_block_def
        insert_block_by_offset_def split: sum.splits if_splits)
  from assms bl h1 obtain rl where rl: "detect_ieee1212_block_length data len bl = Inr rl"
    by (auto simp: detect_ieee1212_blocks_def split: sum.splits)
  let ?root = "\<lparr>offset = bl, length_b = rl, block_type = IEEE1212_ROOT_DIRECTORY_BLOCK,
                data_u = None\<rparr>"
  let ?h = "insert_block_by_offset [?bus] ?root"
  from assms bl h1 rl have m: "malloc_ok cap [?bus]"
    by (auto simp: detect_ieee1212_blocks_def detect_ieee1212_root_directory_block_def
        split: if_splits)
  from assms bl h1 rl have r: "detect_ieee1212_directory_entries depth data len cap bl rl (Some bl)
      ?h = Some (Inr head)"
    by (auto simp: detect_ieee1212_blocks_def detect_ieee1212_root_directory_block_def
        split: if_splits)
  let ?tr = "detect_ieee1212_directory_entries_visits depth data len cap bl rl (Some bl) ?h"
  have tr: "detect_ieee1212_blocks_visits depth data len cap [] = ?tr"
    using bl h1 rl m
    by (simp add: detect_ieee1212_blocks_visits_def detect_ieee1212_root_directory_block_visits_def)
  have sh: "set ?h = {?bus, ?root}" by (auto simp: set_insert_block_by_offset)
  have pre: "\<exists>p\<in>set ?h. offset p = bl \<and> is_directory p \<and> length_b p = rl"
    by (auto simp: sh is_directory_def)
  from detect_visits(1)[OF refl pre r]
  have st: "discovery_step data ?h ?tr head"
    and mt: "\<forall>j<(rl - 4) div 4. \<forall>kt key t.
        entry_target data (bl, j) = Some (kt, key, t) \<longrightarrow> t \<in> offset ` set head"
    by simp_all
  have new: "(\<exists>v. find (refers data (offset b)) ?tr = Some v \<and> discovered_by data head v b) \<and>
         (block_type b = IEEE1212_DIRECTORY_BLOCK \<longrightarrow> entries_materialized data head b)"
    if "b \<in> set head" "b \<noteq> ?bus" "b \<noteq> ?root" for b
    using st that unfolding discovery_step_def sh by blast
  have ty: "block_type b = IEEE1212_LEAF_BLOCK \<or> block_type b = IEEE1212_DIRECTORY_BLOCK"
    if "b \<in> set head" "b \<noteq> ?bus" "b \<noteq> ?root" for b
    using new[OF that] by (auto simp: discovered_by_def split: option.splits if_splits)
  have "entries_materialized data head p" if p: "p \<in> set head" "is_directory p" for p
  proof (cases "p = ?root")
    case True
    with mt show ?thesis by (simp add: entries_materialized_iff entry_count_def)
  next
    case False
    moreover from p(2) have "p \<noteq> ?bus" by (auto simp: is_directory_def)
    ultimately show ?thesis using new[of p] ty[of p] p by (auto simp: is_directory_def)
  qed
  then have 1: "references_materialized data head"
    by (simp add: references_materialized_def list_all_iff)
  have "case find (refers data (offset b)) ?tr of None \<Rightarrow> False
          | Some v \<Rightarrow> discovered_by data head v b"
    if b: "b \<in> set head"
      "block_type b = IEEE1212_LEAF_BLOCK \<or> block_type b = IEEE1212_DIRECTORY_BLOCK" for b
  proof -
    from b(2) have "b \<noteq> ?bus" "b \<noteq> ?root" by auto
    from new[OF b(1) this] show ?thesis by auto
  qed
  then have 2: "parents_are_first_discoverers data ?tr head"
    by (simp add: parents_are_first_discoverers_def list_all_iff)
  from 1 2 tr show ?thesis by simp
qed

lemma nested_detect: "detect_ieee1212_blocks 16 nested_rom 64 10 [] = Some (Inr nested_head)"
  by code_simp

lemma nested_visits:
  "detect_ieee1212_blocks_visits 16 nested_rom 64 10 [] = [(20, 1), (40, 0), (40, 1), (20, 2)]"
  by code_simp


section \<open>The header line of a block\<close>

lemma snprintf_fits: "length text < sz \<Longrightarrow> snprintf sz text = (text, length text)"
  by (simp add: snprintf_def)

lemma print_at_fits:
  "length s + length text < len \<Longrightarrow>
   print_at len (s, length s) text = Some (s @ text, length s + length text)"
  by (simp add: print_at_def append_at_def snprintf_def)

lemma append_at_fits:
  "length s \<le> len \<Longrightarrow> f (len - length s) = Some (t, length t) \<Longrightarrow>
   append_at len (s, length s) f = Some (s @ t, length s + length t)"
  by (simp add: append_at_def)

lemma show_radix_length:
  "2 \<le> b \<Longrightarrow> 0 < k \<Longrightarrow> n < b ^ k \<Longrightarrow> length (show_radix b n) \<le> k"
proof (induction k arbitrary: n)
  case 0
  then show ?case by simp
next
  case (Suc k)
  show ?case
  proof (cases "n < b")
    case True
    then show ?thesis by (subst show_radix.simps) simp
  next
    case False
    with Suc.prems have k: "0 < k" by (cases k) auto
    from Suc.prems have "n div b < b ^ k"
      by (simp add: less_mult_imp_div_less mult.commute)
    from Suc.IH[OF Suc.prems(1) k this] False Suc.prems(1) show ?thesis
      by (subst show_radix.simps) simp
  qed
qed

lemma digit_char_set: "n < 16 \<Longrightarrow> digit_char n \<in> set ''0123456789abcdef''"
proof -
  have "\<forall>n\<in>set [0..<16]. digit_char n \<in> set ''0123456789abcdef''"
    by code_simp
  moreover assume "n < 16"
  ultimately show ?thesis by simp
qed

lemma show_radix_chars:
  "2 \<le> b \<Longrightarrow> b \<le> 16 \<Longrightarrow> set (show_radix b n) \<subseteq> set ''0123456789abcdef''"
proof (induction b n rule: show_radix.induct)
  case (1 b n)
  show ?case
  proof (cases "n < b")
    case True
    with 1 have "n < 16" by simp
    from digit_char_set[OF this] True show ?thesis by (subst show_radix.simps) simp
  next
    case False
    from 1 have "n mod b < 16" by (meson mod_less_divisor less_le_trans zero_less_numeral)
    from digit_char_set[OF this] 1 False show ?thesis by (subst show_radix.simps) simp
  qed
qed

lemma print_at_fits':
  "n = length s \<Longrightarrow> n + length text < len \<Longrightarrow>
   print_at len (s, n) text = Some (s @ text, n + length text)"
  by (simp add: print_at_fits)

lemma length_pad: "length (pad c w s) = max w (length s)"
  by (simp add: pad_def)

lemma length_hex_quadlet: "length (hex (unat (q :: 32 word))) \<le> 8"
proof -
  have "unat q < 16 ^ 8" using unsigned_less[of q] by simp
  then show ?thesis unfolding hex_def by (intro show_radix_length) simp_all
qed

lemma length_hex_offset: "off < 3072 \<Longrightarrow> length (hex (off + IEEE1212_CONFIG_ROM_OFFSET)) \<le> 3"
  unfolding hex_def by (intro show_radix_length) (simp_all add: IEEE1212_CONFIG_ROM_OFFSET_def)

lemma length_line_prefix: "off < 3072 \<Longrightarrow> length (line_prefix off q) = 15"
  using length_hex_quadlet[of q] length_hex_offset[of off]
  by (simp add: line_prefix_def length_pad)

lemma format_line_prefix_fits:
  assumes "off < 3072" "15 < len"
  shows "format_line_prefix len off q True = Some (line_prefix off q, 15)"
proof -
  let ?a = "pad CHR '' '' 3 (hex (off + IEEE1212_CONFIG_ROM_OFFSET)) @ ''  '' @
            pad CHR ''0'' 8 (hex (unat q))"
  have l: "length ?a = 13"
    using length_line_prefix[OF assms(1), of q] by (simp add: line_prefix_def)
  then have "snprintf len ?a = (?a, 13)" using assms(2) by (simp add: snprintf_fits)
  moreover have "print_at len (?a, 13) ''  '' = Some (?a @ ''  '', 13 + length ''  '')"
    by (rule print_at_fits') (use l assms(2) in simp_all)
  ultimately show ?thesis
    by (simp add: format_line_prefix_def line_prefix_def)
qed

lemma length_dec_16: "length (dec (unat (w :: 16 word))) \<le> 5"
proof -
  have "unat w < 2 ^ 16" using unsigned_less[of w] by simp
  then have "unat w < 10 ^ 5" by simp
  then show ?thesis unfolding dec_def by (intro show_radix_length) simp_all
qed

lemma length_dec_count: "n < 1000 \<Longrightarrow> length (dec n) \<le> 3"
  unfolding dec_def by (intro show_radix_length) simp_all

lemma metadata_text_length:
  assumes "length block_name \<le> 9" "quadlet_count \<le> 1000"
  shows "length (metadata_text block_name quadlet quadlet_count) \<le> 71"
proof -
  have "length (dec (quadlet_count - 1)) \<le> 3"
    by (rule length_dec_count) (use assms(2) in simp)
  then show ?thesis
    using assms(1)
      length_dec_16[of "ucast (drop_bit 16 (quadlet 0 AND 0xffff0000))"]
      length_dec_16[of "ucast (quadlet 0 AND 0x0000ffff)"]
      length_dec_16[of "compute_itu_t_crc_16 (\<lambda>i. quadlet (i + 1)) (quadlet_count - 1)"]
    by (simp add: metadata_text_def Let_def)
qed

lemma metadata_writer:
  assumes "length (a @ (if p then b else []) @ c @ (if q then d else [])) < n"
  shows "do {
           st \<leftarrow> Some (snprintf n a);
           st \<leftarrow> (if p then print_at n st b else Some st);
           st \<leftarrow> print_at n st c;
           (if q then print_at n st d else Some st)
         } = Some (a @ (if p then b else []) @ c @ (if q then d else []),
                   length (a @ (if p then b else []) @ c @ (if q then d else [])))"
  using assms by (cases p; cases q) (simp_all add: snprintf_fits print_at_fits')

lemma format_block_metadata_fits:
  assumes "length (metadata_text block_name quadlet quadlet_count) < n"
  shows "format_block_metadata n block_name quadlet quadlet_count =
         Some (metadata_text block_name quadlet quadlet_count,
               length (metadata_text block_name quadlet quadlet_count))"
  using assms unfolding format_block_metadata_def metadata_text_def Let_def
  by (rule metadata_writer)

lemma block_header_line_fits:
  assumes "off < 3072" "length block_name \<le> 9" "quadlet_count \<le> 1000"
  shows "block_header_line LINE_WIDTH off block_name quadlet quadlet_count =
         Some (line_prefix off (quadlet 0) @ metadata_text block_name quadlet quadlet_count)"
proof -
  let ?t = "metadata_text block_name quadlet quadlet_count"
  have l: "length ?t \<le> 71" by (rule metadata_text_length[OF assms(2,3)])
  have p: "format_line_prefix LINE_WIDTH off (quadlet 0) True =
           Some (line_prefix off (quadlet 0), length (line_prefix off (quadlet 0)))"
    using format_line_prefix_fits[OF assms(1), of LINE_WIDTH] length_line_prefix[OF assms(1)]
    by (simp add: LINE_WIDTH_def)
  have m: "format_block_metadata (LINE_WIDTH - length (line_prefix off (quadlet 0)))
             block_name quadlet quadlet_count = Some (?t, length ?t)"
    by (rule format_block_metadata_fits)
       (use l length_line_prefix[OF assms(1)] in \<open>simp add: LINE_WIDTH_def\<close>)
  have "append_at LINE_WIDTH (line_prefix off (quadlet 0), length (line_prefix off (quadlet 0)))
          (\<lambda>n. format_block_metadata n block_name quadlet quadlet_count) =
        Some (line_prefix off (quadlet 0) @ ?t, length (line_prefix off (quadlet 0)) + length ?t)"
    by (rule append_at_fits) (use m length_line_prefix[OF assms(1)] in \<open>simp_all add: LINE_WIDTH_def\<close>)
  with p show ?thesis by (simp add: block_header_line_def line_of_def)
qed

lemma no_s_dec: "CHR ''s'' \<notin> set (dec n)"
proof -
  have "set (dec n) \<subseteq> set ''0123456789abcdef''"
    unfolding dec_def by (rule show_radix_chars) simp_all
  moreover have "CHR ''s'' \<notin> set ''0123456789abcdef''" by simp
  ultimately show ?thesis by blast
qed

lemma no_s_hex: "CHR ''s'' \<notin> set (hex n)"
proof -
  have "set (hex n) \<subseteq> set ''0123456789abcdef''"
    unfolding hex_def by (rule show_radix_chars) simp_all
  moreover have "CHR ''s'' \<notin> set ''0123456789abcdef''" by simp
  ultimately show ?thesis by blast
qed

lemma no_s_pad: "CHR ''s'' \<noteq> c \<Longrightarrow> CHR ''s'' \<notin> set s \<Longrightarrow> CHR ''s'' \<notin> set (pad c w s)"
  by (simp add: pad_def)

lemma no_s_line_prefix: "CHR ''s'' \<notin> set (line_prefix off q)"
proof -
  have "CHR ''s'' \<notin> set (pad CHR '' '' 3 (hex (off + IEEE1212_CONFIG_ROM_OFFSET)))"
    "CHR ''s'' \<notin> set (pad CHR ''0'' 8 (hex (unat q)))"
    by (rule no_s_pad; simp add: no_s_hex)+
  then show ?thesis by (simp add: line_prefix_def)
qed

lemma notin_metadata:
  "x \<notin> set a \<Longrightarrow> x \<notin> set b \<Longrightarrow> x \<notin> set c \<Longrightarrow> x \<notin> set d \<Longrightarrow> x \<notin> set e \<Longrightarrow>
   x \<notin> set f \<Longrightarrow> x \<notin> set g \<Longrightarrow> x \<notin> set h \<Longrightarrow>
   x \<notin> set ((a @ b @ c) @ (if p then d @ e @ f else []) @ (g @ h) @ [])"
  by simp

lemma no_s_metadata:
  assumes "block_name = ''leaf'' \<or> block_name = ''directory''"
    and "(ucast (quadlet 0 AND 0x0000ffff) :: 16 word) =
               compute_itu_t_crc_16 (\<lambda>i. quadlet (i + 1)) (quadlet_count - 1)"
  shows "CHR ''s'' \<notin> set (metadata_text block_name quadlet quadlet_count)"
proof -
  have n: "CHR ''s'' \<notin> set block_name"
    using assms(1) by (elim disjE) simp_all
  have l: "CHR ''s'' \<notin> set ''_length ''" "CHR ''s'' \<notin> set '' (actual length ''"
    "CHR ''s'' \<notin> set '')''" "CHR ''s'' \<notin> set '', crc ''"
    by simp_all
  show ?thesis
    unfolding metadata_text_def Let_def
    by (simp only: assms(2) simp_thms if_False)
       (rule notin_metadata[OF n l(1) no_s_dec l(2) no_s_dec l(3) l(4) no_s_dec])
qed

lemma suffix_metadata:
  assumes "(ucast (quadlet 0 AND 0x0000ffff) :: 16 word) \<noteq>
               compute_itu_t_crc_16 (\<lambda>i. quadlet (i + 1)) (quadlet_count - 1)"
  shows "\<exists>pre. metadata_text block_name quadlet quadlet_count =
           pre @ '' (should be '' @
           dec (unat (compute_itu_t_crc_16 (\<lambda>i. quadlet (i + 1)) (quadlet_count - 1))) @ '')''"
  unfolding metadata_text_def Let_def if_P[OF assms]
  by (metis append.assoc)

lemma header_annotation:
  assumes "block_name = ''leaf'' \<or> block_name = ''directory''"
  shows "(sublist '' (should be '' (line_prefix off q @ metadata_text block_name quadlet quadlet_count)
          \<longleftrightarrow> (ucast (quadlet 0 AND 0x0000ffff) :: 16 word) \<noteq>
               compute_itu_t_crc_16 (\<lambda>i. quadlet (i + 1)) (quadlet_count - 1)) \<and>
         ((ucast (quadlet 0 AND 0x0000ffff) :: 16 word) \<noteq>
               compute_itu_t_crc_16 (\<lambda>i. quadlet (i + 1)) (quadlet_count - 1) \<longrightarrow>
          suffix ('' (should be '' @
                  dec (unat (compute_itu_t_crc_16 (\<lambda>i. quadlet (i + 1)) (quadlet_count - 1))) @
                  '')'')
            (line_prefix off q @ metadata_text block_name quadlet quadlet_count))"
proof (cases "(ucast (quadlet 0 AND 0x0000ffff) :: 16 word) =
               compute_itu_t_crc_16 (\<lambda>i. quadlet (i + 1)) (quadlet_count - 1)")
  case True
  have "CHR ''s'' \<notin> set (line_prefix off q @ metadata_text block_name quadlet quadlet_count)"
    using no_s_metadata[OF assms True] no_s_line_prefix[of off q] by simp
  moreover have "CHR ''s'' \<in> set '' (should be ''" by simp
  ultimately have "\<not> sublist '' (should be ''
      (line_prefix off q @ metadata_text block_name quadlet quadlet_count)"
    using set_mono_sublist by blast
  with True show ?thesis by simp
next
  case False
  let ?d = "dec (unat (compute_itu_t_crc_16 (\<lambda>i. quadlet (i + 1)) (quadlet_count - 1))) @ '')''"
  from suffix_metadata[OF False] obtain pre where
    m: "metadata_text block_name quadlet quadlet_count = pre @ '' (should be '' @ ?d"
    by blast
  have "line_prefix off q @ metadata_text block_name quadlet quadlet_count =
        (line_prefix off q @ pre) @ '' (should be '' @ ?d"
    unfolding m by (simp only: append.assoc)
  then have "sublist '' (should be '' (line_prefix off q @ metadata_text block_name quadlet quadlet_count)"
    and "suffix ('' (should be '' @ ?d)
            (line_prefix off q @ metadata_text block_name quadlet quadlet_count)"
    unfolding sublist_def suffix_def by blast+
  with False show ?thesis by simp
qed

lemma those_lines_Cons:
  "those_lines (a # as) = Some ls \<longleftrightarrow>
   (\<exists>x xs. a = Some x \<and> those_lines as = Some xs \<and> ls = x # xs)"
  by (cases a) auto

lemma format_directory_entries_header:
  assumes "format_directory_entries len off quadlet quadlet_count identifier = Some ls"
    and "0 < quadlet_count"
  shows "block_header_line len off ''directory'' quadlet quadlet_count = Some (ls ! 0)"
  using assms
  by (cases quadlet_count) (auto simp: format_directory_entries_def those_lines_Cons)

lemma header_line_of_block:
  assumes "block_type block \<in> {IEEE1212_ROOT_DIRECTORY_BLOCK, IEEE1212_LEAF_BLOCK,
                                  IEEE1212_DIRECTORY_BLOCK}"
    and "4 \<le> length_b block"
    and "format_block len data data_length head block = Some ls"
  shows "block_header_line len (offset block)
           (if block_type block = IEEE1212_LEAF_BLOCK then ''leaf'' else ''directory'')
           (content data block) (length_b block div 4) = Some (ls ! 2)"
proof -
  have q: "0 < length_b block div 4" using assms(2) by simp
  consider (isroot) "block_type block = IEEE1212_ROOT_DIRECTORY_BLOCK"
    | (isleaf) "block_type block = IEEE1212_LEAF_BLOCK"
    | (isdir) "block_type block = IEEE1212_DIRECTORY_BLOCK"
    using assms(1) by auto
  then show ?thesis
  proof cases
    case isroot
    with assms(3) obtain tp es where
      "those_lines [title_line len None ''root directory'', rule_line len] = Some tp"
      "format_directory_entries len (offset block) (content data block) (length_b block div 4)
         (root_identifier (content data block) (length_b block div 4)) = Some es"
      "ls = tp @ es"
      by (auto simp: format_block_def format_root_directory_block_def Let_def
          split: Option.bind_splits)
    with format_directory_entries_header[OF this(2) q] isroot show ?thesis
      by (auto simp: those_lines_Cons)
  next
    case isleaf
    with assms(3) show ?thesis
      by (auto simp: format_block_def format_leaf_block_def Let_def those_lines_Cons
          split: Option.bind_splits prod.splits)
  next
    case isdir
    with assms(3) obtain t1 t2 es ident where
      "format_directory_entries len (offset block) (content data block) (length_b block div 4)
         ident = Some es"
      "ls = t1 # t2 # es"
      by (auto simp: format_block_def format_directory_block_def Let_def those_lines_Cons
          split: Option.bind_splits prod.splits format_content.splits)
    with format_directory_entries_header[OF this(1) q] isdir show ?thesis
      by auto
  qed
qed

lemma crc_field_overwritten:
  "ucast ((((q::32 word) AND 0xffff0000) OR ucast (c::16 word)) AND 0x0000ffff) = c"
proof -
  have m: "(0x0000ffff :: 32 word) = mask 16" "(0xffff0000 :: 32 word) = NOT (mask 16)"
    by (simp_all add: mask_eq_exp_minus_1)
  show ?thesis
    unfolding m
    by (rule bit_word_eqI) (auto simp: bit_simps)
qed

lemma content_with_crc:
  "content (with_crc data block crc) block 0 =
     (content data block 0 AND 0xffff0000) OR ucast crc"
  "content (with_crc data block crc) block (Suc i) = content data block (Suc i)"
proof -
  have "(offset block + 4 * Suc i) div 4 = offset block div 4 + Suc i"
    by (metis add.commute div_mult_self2 zero_neq_numeral add.commute)
  then show "content (with_crc data block crc) block (Suc i) = content data block (Suc i)"
    by (simp add: content_def with_crc_def quadlet_at_def)
qed (simp add: content_def with_crc_def quadlet_at_def)

lemma crc_round_trip:
  "stored_crc (with_crc data block (content_crc data block)) block =
   content_crc (with_crc data block (content_crc data block)) block"
  by (simp add: stored_crc_def content_crc_def content_with_crc crc_field_overwritten)

lemma crc_annotation:
  assumes "block_type block \<in> {IEEE1212_ROOT_DIRECTORY_BLOCK, IEEE1212_LEAF_BLOCK,
                                  IEEE1212_DIRECTORY_BLOCK}"
    and "4 \<le> length_b block" and "offset block + length_b block \<le> 1024"
    and "format_block LINE_WIDTH data data_length head block = Some ls"
  shows "(sublist '' (should be '' (ls ! 2) \<longleftrightarrow> stored_crc data block \<noteq> content_crc data block) \<and>
         (stored_crc data block \<noteq> content_crc data block \<longrightarrow>
            suffix ('' (should be '' @ dec (unat (content_crc data block)) @ '')'') (ls ! 2))"
proof -
  let ?name = "if block_type block = IEEE1212_LEAF_BLOCK then ''leaf'' else ''directory''"
  have n: "?name = ''leaf'' \<or> ?name = ''directory''" by simp
  have "block_header_line LINE_WIDTH (offset block) ?name (content data block)
          (length_b block div 4) = Some (ls ! 2)"
    by (rule header_line_of_block[OF assms(1,2,4)])
  moreover have "block_header_line LINE_WIDTH (offset block) ?name (content data block)
          (length_b block div 4) =
        Some (line_prefix (offset block) (content data block 0) @
              metadata_text ?name (content data block) (length_b block div 4))"
    by (rule block_header_line_fits) (use assms(3) in auto)
  ultimately have l: "ls ! 2 = line_prefix (offset block) (content data block 0) @
              metadata_text ?name (content data block) (length_b block div 4)" by simp
  from header_annotation[OF n, of "offset block" "content data block 0" "content data block"
      "length_b block div 4"]
  show ?thesis unfolding l stored_crc_def content_crc_def by simp
qed

lemma overlap_detect:
  "detect_ieee1212_blocks 11 overlap_rom 44 10 [] = Some (Inr overlap_head)"
  by code_simp

lemma overlap_fulfill:
  "fulfill_orphan_blocks 44 10 (normalize_blocks overlap_head 44) = Inr overlap_blocks"
  by code_simp

lemma overlap_leaf_lines:
  "format_block LINE_WIDTH overlap_rom 44 overlap_blocks overlap_leaf =
     Some [''               descriptor leaf at 420'',
           ''               -----------------------------------------------------------------'',
           ''420  00020c4d  leaf_length 2 (actual length 0), crc 3149 (should be 0)'']"
  by code_simp

lemma example_leaf_lines:
  "format_block LINE_WIDTH example_rom 48 example_blocks (example_blocks ! 3) =
     Some [''               descriptor leaf at 424'',
           ''               -----------------------------------------------------------------'',
           ''424  00010000  leaf_length 1, crc 0 (should be 46124)'',
           ''428  12345678  descriptor_type 12, specifier_ID 0'']"
  by code_simp

lemma example_leaf_lines_with_crc:
  "format_block LINE_WIDTH (with_crc example_rom (example_blocks ! 3) 46124) 48 example_blocks
     (example_blocks ! 3) =
     Some [''               descriptor leaf at 424'',
           ''               -----------------------------------------------------------------'',
           ''424  0001b42c  leaf_length 1, crc 46124'',
           ''428  12345678  descriptor_type 12, specifier_ID 0'']"
  by code_simp


section \<open>The lines of the entries of a directory\<close>

lemma value_not_invalid: "snd (snd (decode_directory_entry q)) \<noteq> INVALID_KEY_VALUE"
proof -
  have "(q AND 0x00ffffff) \<le> 0x00ffffff" by (rule word_and_le1)
  then show ?thesis
    by (auto simp: decode_directory_entry_def INVALID_KEY_VALUE_def)
qed

lemma key_ids_distinct:
  "KEY_ID_CSR_SPECIFIER_ID \<noteq> KEY_ID_CSR_VERSION" "KEY_ID_CSR_VENDOR_INFO \<noteq> KEY_ID_CSR_VERSION"
  by (simp_all add: KEY_ID_CSR_SPECIFIER_ID_def KEY_ID_CSR_VERSION_def KEY_ID_CSR_VENDOR_INFO_def)

lemma fold_accumulate_entry:
  "fold (\<lambda>i. accumulate_entry (quadlet i)) idxs ident =
     \<lparr>specifier_id =
        (if specifier_id ident \<noteq> INVALID_KEY_VALUE then specifier_id ident
         else case first_immediate [KEY_ID_CSR_SPECIFIER_ID, KEY_ID_CSR_VENDOR_INFO] quadlet idxs of
                None \<Rightarrow> INVALID_KEY_VALUE | Some v \<Rightarrow> v),
      version =
        (if version ident \<noteq> INVALID_KEY_VALUE then version ident
         else case first_immediate [KEY_ID_CSR_VERSION] quadlet idxs of
                None \<Rightarrow> INVALID_KEY_VALUE | Some v \<Rightarrow> v)\<rparr>"
proof (induction idxs arbitrary: ident)
  case Nil
  then show ?case by (simp add: first_immediate_def)
next
  case (Cons i idxs)
  obtain kt key val where d: "decode_directory_entry (quadlet i) = (kt, key, val)"
    by (cases "decode_directory_entry (quadlet i)") auto
  have v: "val \<noteq> INVALID_KEY_VALUE" using value_not_invalid[of "quadlet i"] d by simp
  show ?case
    unfolding fold_simps Cons.IH
    using d v key_ids_distinct
    by (auto simp: accumulate_entry_def first_immediate_def)
qed

lemma accumulate_block_declared:
  "declared_identifier data b = Some ident \<Longrightarrow>
   accumulate_block data b unset_identifier = ident"
  by (auto simp: declared_identifier_def accumulate_block_def fold_accumulate_entry
      unset_identifier_def split: option.splits)

lemma declared_complete:
  "declared_identifier data b = Some ident \<Longrightarrow>
   specifier_id ident \<noteq> INVALID_KEY_VALUE \<and> version ident \<noteq> INVALID_KEY_VALUE"
  using value_not_invalid
  by (auto simp: declared_identifier_def first_immediate_def split: option.splits list.splits)

lemma accumulate_block_complete:
  "specifier_id ident \<noteq> INVALID_KEY_VALUE \<Longrightarrow> version ident \<noteq> INVALID_KEY_VALUE \<Longrightarrow>
   accumulate_block data b ident = ident"
  by (simp add: accumulate_block_def fold_accumulate_entry)

lemma accumulate_complete:
  "specifier_id ident \<noteq> INVALID_KEY_VALUE \<Longrightarrow> version ident \<noteq> INVALID_KEY_VALUE \<Longrightarrow>
   accumulate_spec_identifier bound data head base ident = Some r \<Longrightarrow> r = ident"
  by (induction bound data head base ident rule: accumulate_spec_identifier.induct)
     (auto simp: accumulate_block_complete split: option.splits if_splits)

lemma walk_from_declared_base:
  assumes "accumulate_spec_identifier bound data head (Some p) unset_identifier = Some r"
    and "block_at head p = Some base"
    and "declared_identifier data base = Some ident"
  shows "r = ident"
proof -
  from assms(1) obtain n where n: "bound = Suc n" by (cases bound) auto
  note c = declared_complete[OF assms(3)]
  let ?a = "accumulate_block data base unset_identifier"
  have a: "?a = ident" by (rule accumulate_block_declared[OF assms(3)])
  show ?thesis
  proof (cases "block_type base = IEEE1212_DIRECTORY_BLOCK")
    case True
    with assms(1,2) n obtain d :: block_data where
      "accumulate_spec_identifier n data head (parent d) ?a = Some r"
      by (auto split: option.splits)
    with a c accumulate_complete show ?thesis by metis
  next
    case False
    with assms(1,2) n have "accumulate_spec_identifier n data head None ?a = Some r"
      by simp
    with a show ?thesis by simp
  qed
qed

lemma block_at_member:
  "b \<in> set head \<Longrightarrow> distinct (map offset head) \<Longrightarrow> block_at head (offset b) = Some b"
  unfolding block_at_def
  by (induction head) auto

lemma those_lines_map_nth:
  "those_lines (map f xs) = Some ys \<Longrightarrow>
   length ys = length xs \<and> (\<forall>j<length xs. f (xs ! j) = Some (ys ! j))"
proof (induction xs arbitrary: ys)
  case Nil
  then show ?case by simp
next
  case (Cons x xs)
  from Cons.prems obtain y ys' where y: "f x = Some y" "those_lines (map f xs) = Some ys'"
    "ys = y # ys'"
    by (auto simp: those_lines_Cons)
  from Cons.IH[OF y(2)] y(1,3) show ?case
    by (auto simp: nth_Cons split: nat.splits)
qed

lemma format_directory_entries_nth:
  assumes "format_directory_entries len off quadlet quadlet_count ident = Some es"
    and "1 \<le> i" and "i < quadlet_count"
  shows "format_directory_entry_line len off quadlet ident i = Some (es ! i)"
proof -
  from assms(1) obtain h ys where
    ys: "those_lines (map (format_directory_entry_line len off quadlet ident) [1..<quadlet_count])
         = Some ys"
    and es: "es = take quadlet_count (h # ys)"
    by (auto simp: format_directory_entries_def those_lines_Cons)
  from those_lines_map_nth[OF ys]
  have "\<forall>j<length [1..<quadlet_count].
          format_directory_entry_line len off quadlet ident ([1..<quadlet_count] ! j)
          = Some (ys ! j)"
    by blast
  moreover have "i - 1 < length [1..<quadlet_count]" using assms(2,3) by simp
  ultimately have "format_directory_entry_line len off quadlet ident
          ([1..<quadlet_count] ! (i - 1)) = Some (ys ! (i - 1))"
    by blast
  moreover have "[1..<quadlet_count] ! (i - 1) = i" using assms(2,3) by simp
  moreover have "es ! i = ys ! (i - 1)"
    using assms(2,3) es by (cases i) simp_all
  ultimately show ?thesis by simp
qed

lemma directory_lines_of_block:
  assumes "block_type directory = IEEE1212_DIRECTORY_BLOCK"
    and "format_block len data data_length head directory = Some ls"
    and "1 \<le> i" and "i < length_b directory div 4"
  shows "\<exists>d ident. data_u directory = Some d \<and>
           directory_identifier data head directory d = Some ident \<and>
           format_directory_entry_line len (offset directory) (content data directory) ident i
             = Some (ls ! (2 + i))"
proof -
  from assms(1,2) obtain d ident t1 t2 es where
    "data_u directory = Some d" "directory_identifier data head directory d = Some ident"
    "format_directory_entries len (offset directory) (content data directory)
       (length_b directory div 4) ident = Some es"
    "ls = t1 # t2 # es"
    by (auto simp: format_block_def format_directory_block_def Let_def those_lines_Cons
        split: Option.bind_splits prod.splits format_content.splits)
  with format_directory_entries_nth[OF this(3) assms(3,4)] show ?thesis by simp
qed

lemma directory_identifier_declared:
  assumes "directory_identifier data head directory d = Some r"
    and "directory_base directory d = Pointer (Some p)"
    and "block_at head p = Some base"
    and "declared_identifier data base = Some ident"
  shows "r = ident"
  using assms(1) walk_from_declared_base[OF _ assms(3,4)]
  by (simp add: directory_identifier_def assms(2))

lemma sbp_logical_unit_formatter:
  "detect_key_formatter \<lparr>specifier_id = 0x00609e, version = 0x010483\<rparr> 0 0x14 =
     (formatter KEY_TYPE_IMMEDIATE 0x14 ''logical unit number''
        (Content_immediate P_format_sbp_logical_unit_number_immediate_value), Some ''SBP-2'')"
  by code_simp

lemma sbp_logical_unit_text:
  "format_immediate_entry 85 0 0 (Some ''SBP-2'')
     (formatter KEY_TYPE_IMMEDIATE 0x14 ''logical unit number''
        (Content_immediate P_format_sbp_logical_unit_number_immediate_value)) =
   Some (''SBP-2 logical unit number:  ordered 0,type Disk,'',
         length ''SBP-2 logical unit number:  ordered 0,type Disk,'')"
  by code_simp

lemma decode_0x14000000: "decode_directory_entry 0x14000000 = (0, 0x14, 0)"
  by code_simp

lemma sbp_logical_unit_line:
  assumes "quadlet i = 0x14000000" and "directory_offset + i * 4 < 3072"
  shows "format_directory_entry_line LINE_WIDTH directory_offset quadlet
           \<lparr>specifier_id = 0x00609e, version = 0x010483\<rparr> i =
         Some (line_prefix (directory_offset + i * 4) 0x14000000 @
               ''SBP-2 logical unit number:  ordered 0,type Disk,'')"
proof -
  let ?f = "formatter KEY_TYPE_IMMEDIATE 0x14 ''logical unit number''
        (Content_immediate P_format_sbp_logical_unit_number_immediate_value)"
  let ?t = "''SBP-2 logical unit number:  ordered 0,type Disk,''"
  let ?p = "line_prefix (directory_offset + i * 4) 0x14000000"
  have e: "format_entry 0 85 off 0 (Some ''SBP-2'') ?f = Some (?t, length ?t)" for off
  proof -
    have fe: "format_entry 0 = format_immediate_entry"
      by (simp add: format_entry_def KEY_TYPE_IMMEDIATE_def)
    have "format_immediate_entry 85 off 0 (Some ''SBP-2'') ?f =
          format_immediate_entry 85 0 0 (Some ''SBP-2'') ?f"
      by (simp add: format_immediate_entry_def)
    then show ?thesis
      unfolding fe by (simp only: sbp_logical_unit_text)
  qed
  have p: "format_line_prefix LINE_WIDTH (directory_offset + i * 4) 0x14000000 True =
           Some (?p, length ?p)"
    using format_line_prefix_fits[OF assms(2), of LINE_WIDTH] length_line_prefix[OF assms(2)]
    by (simp add: LINE_WIDTH_def)
  have "append_at LINE_WIDTH (?p, length ?p)
          (\<lambda>n. format_entry 0 n (directory_offset + i * 4) 0 (Some ''SBP-2'') ?f) =
        Some (?p @ ?t, length ?p + length ?t)"
    by (rule append_at_fits)
       (use e length_line_prefix[OF assms(2)] in \<open>simp_all add: LINE_WIDTH_def\<close>)
  with p show ?thesis
    by (simp add: format_directory_entry_line_def assms(1) decode_0x14000000
        sbp_logical_unit_formatter line_of_def del: append.simps list.size)
qed














lemma sbp_detect:
  "detect_ieee1212_blocks 13 sbp_rom 52 10 [] = Some (Inr (sbp_rom_top @ [sbp_rom_unit]))"
  by code_simp

lemma sbp_fulfill:
  "fulfill_orphan_blocks 52 10 (normalize_blocks (sbp_rom_top @ [sbp_rom_unit]) 52) =
     Inr (sbp_rom_top @ [sbp_rom_unit])"
  by code_simp

lemma sbp_unit_lines:
  "format_block LINE_WIDTH sbp_rom 52 (sbp_rom_top @ [sbp_rom_unit]) sbp_rom_unit =
     Some [''               unit directory at 424'',
           ''               -----------------------------------------------------------------'',
           ''424  00030000  directory_length 3, crc 0 (should be 46019)'',
           ''428  1200609e  specifier id'',
           ''42c  13010483  version'',
           ''430  14000000  SBP-2 logical unit number:  ordered 0,type Disk,'']"
  by code_simp

lemma sbp_unit_declared:
  "declared_identifier sbp_rom sbp_rom_unit = Some \<lparr>specifier_id = 0x00609e, version = 0x010483\<rparr>"
  by code_simp







subsection \<open>Tiling\<close>

lemma example_rom_detect:
  "detect_ieee1212_blocks 12 example_rom 48 10 [] = Some (Inr example_head)"
  by code_simp

lemma example_rom_fulfill:
  "fulfill_orphan_blocks 48 10 (normalize_blocks example_head 48) = Inr example_blocks"
  by code_simp

text \<open>
  C1.  When discovery, normalization and orphan fill succeed on a buffer of length
  \<open>len\<close>, the resulting list starts at offset 0, every block starts where its
  predecessor ends, the last block ends at \<open>len\<close>, and the offsets are strictly
  ascending.
\<close>

theorem blocks_tile_buffer:
  assumes "detect_ieee1212_blocks depth data len cap [] = Some (Inr head)"
    and "fulfill_orphan_blocks len cap (normalize_blocks head len) = Inr blocks"
  shows "blocks \<noteq> [] \<and> offset (hd blocks) = 0 \<and>
         (\<forall>i. Suc i < length blocks \<longrightarrow>
            offset (blocks ! Suc i) = offset (blocks ! i) + length_b (blocks ! i)) \<and>
         offset (last blocks) + length_b (last blocks) = len \<and>
         sorted_wrt (<) (map offset blocks)"
proof -
  from detect_blocks_discovered[OF assms(1)] have d: "discovered len head" .
  let ?n = "normalize_blocks head len"
  have ne: "?n \<noteq> []" using d by (cases head) (auto simp: discovered_def Let_def)
  have "sorted_wrt (<) (map offset head)"
    using d by (simp add: discovered_def sorted_wrt_map)
  then have "sorted_wrt (<) (map offset ?n)"
    by (simp only: map_offset_normalize)
  then have s: "sorted_wrt lt_off ?n"
    by (simp add: sorted_wrt_map)
  have f: "fits ?n len"
    by (rule normalize_fits) (use d in \<open>auto simp: discovered_def\<close>)
  have h0: "offset (hd ?n) = 0"
    using d by (cases head) (auto simp: discovered_def Let_def)
  from assms(2) have "fulfill_orphan_loop len cap ?n 0 = Inr blocks"
    by (simp add: fulfill_orphan_blocks_def)
  from fulfill_orphan_loop_fill[OF s _ this] f have b: "blocks = fill_gaps ?n len" by simp
  from tiles_fill_gaps[OF f ne] h0 b have t: "tiles 0 blocks len" by simp
  have bne: "blocks \<noteq> []" using b ne by (cases ?n) (auto simp: Let_def)
  from t bne have "offset (hd blocks) = 0" by (cases blocks) auto
  with bne tiles_nth[OF t] tiles_last[OF t bne] tiles_sorted[OF t] show ?thesis by blast
qed

theorem blocks_tile_buffer_witness:
  "detect_ieee1212_blocks 12 example_rom 48 10 [] = Some (Inr example_head) \<and>
   fulfill_orphan_blocks 48 10 (normalize_blocks example_head 48) = Inr example_blocks \<and>
   offset (hd example_blocks) = 0 \<and>
   offset (example_blocks ! Suc 1) = offset (example_blocks ! 1) + length_b (example_blocks ! 1) \<and>
   offset (last example_blocks) + length_b (last example_blocks) = 48 \<and>
   sorted_wrt (<) (map offset example_blocks)"
  using blocks_tile_buffer[OF example_rom_detect example_rom_fulfill]
    example_rom_detect example_rom_fulfill
  by (simp add: example_blocks_def)

subsection \<open>Uniqueness, termination, declared lengths\<close>

text \<open>
  C6.  When discovery succeeds, no two blocks of its list share an offset; every leaf
  or directory entry of every root or directory block of the list refers to the offset
  of a block of the list, so that a block that entries refer to, however many they are,
  is in the list exactly once; and for every leaf or directory block \<open>b\<close> of the list,
  the first entry that discovery reaches, in the order in which it runs, among
  those that refer to the offset of \<open>b\<close> is an entry of a root or directory block of the
  list, the parent stored in \<open>b\<close> points to that block, the key id stored in \<open>b\<close> is the
  key id of that entry, and \<open>b\<close> is a leaf or a directory as the key type of that entry
  says.
\<close>

theorem block_materialized_once:
  assumes "detect_ieee1212_blocks depth data len cap [] = Some (Inr head)"
  shows "distinct (map offset head) \<and>
         references_materialized data head \<and>
         parents_are_first_discoverers data (detect_ieee1212_blocks_visits depth data len cap [])
           head"
proof -
  from detect_blocks_discovered[OF assms] have "sorted_wrt (<) (map offset head)"
    by (simp add: discovered_def sorted_wrt_map)
  then have "distinct (map offset head)"
    by (simp add: strict_sorted_iff)
  with detect_blocks_visits[OF assms] show ?thesis by simp
qed

text \<open>
  In \<open>nested_rom\<close> discovery reaches the entries in the order \<open>(20, 1)\<close>, \<open>(40, 0)\<close>,
  \<open>(40, 1)\<close>, \<open>(20, 2)\<close>; the last three refer to offset 56.  The leaf at offset 56 is
  stored once, with the key id 0x19 of the entry \<open>(40, 0)\<close> and with the directory at
  offset 40 as its parent.
\<close>

theorem block_materialized_once_witness:
  "detect_ieee1212_blocks 16 nested_rom 64 10 [] = Some (Inr nested_head) \<and>
   detect_ieee1212_blocks_visits 16 nested_rom 64 10 [] = [(20, 1), (40, 0), (40, 1), (20, 2)] \<and>
   map (entry_target nested_rom) [(20, 1), (40, 0), (40, 1), (20, 2)] =
     [Some (KEY_TYPE_DIRECTORY, 0x11, 40), Some (KEY_TYPE_LEAF, 0x19, 56),
      Some (KEY_TYPE_LEAF, 0x01, 56), Some (KEY_TYPE_LEAF, 0x01, 56)] \<and>
   distinct (map offset nested_head) \<and>
   references_materialized nested_rom nested_head \<and>
   parents_are_first_discoverers nested_rom [(20, 1), (40, 0), (40, 1), (20, 2)] nested_head \<and>
   find (refers nested_rom 56) [(20, 1), (40, 0), (40, 1), (20, 2)] = Some (40, 0) \<and>
   block_at nested_head 56 =
     Some \<lparr>offset = 56, length_b = 8, block_type = IEEE1212_LEAF_BLOCK,
           data_u = Some \<lparr>key_id = 0x19, parent = Some 40\<rparr>\<rparr>"
proof -
  have "map (entry_target nested_rom) [(20, 1), (40, 0), (40, 1), (20, 2)] =
     [Some (KEY_TYPE_DIRECTORY, 0x11, 40), Some (KEY_TYPE_LEAF, 0x19, 56),
      Some (KEY_TYPE_LEAF, 0x01, 56), Some (KEY_TYPE_LEAF, 0x01, 56)]"
    by code_simp
  moreover have "find (refers nested_rom 56) [(20, 1), (40, 0), (40, 1), (20, 2)] = Some (40, 0)"
    by code_simp
  moreover have "block_at nested_head 56 =
     Some \<lparr>offset = 56, length_b = 8, block_type = IEEE1212_LEAF_BLOCK,
           data_u = Some \<lparr>key_id = 0x19, parent = Some 40\<rparr>\<rparr>"
    by code_simp
  ultimately show ?thesis
    using block_materialized_once[OF nested_detect] nested_detect nested_visits by simp
qed


text \<open>
  C10.  Discovery returns on every buffer: a recursion depth of \<open>len div 4\<close>, the number
  of quadlets in the buffer, is never exhausted; and a directory whose offset is already
  in the list is skipped at any depth, without entering it.
\<close>

theorem discovery_terminates:
  "(len div 4 \<le> depth \<longrightarrow> (\<exists>r. detect_ieee1212_blocks depth data len cap [] = Some r)) \<and>
   (list_ex (\<lambda>entry. offset entry = off) h \<longrightarrow>
      detect_ieee1212_directory_block 0 data len cap off bl key p h = Some (Inr h))"
  using detect_blocks_returns[of len depth data cap] by auto

theorem discovery_terminates_witness:
  "52 div 4 \<le> (13::nat) \<and>
   detect_ieee1212_blocks 13 sbp_rom 52 10 [] = Some (Inr (sbp_rom_top @ [sbp_rom_unit])) \<and>
   list_ex (\<lambda>entry. offset entry = 36) (sbp_rom_top @ [sbp_rom_unit]) \<and>
   detect_ieee1212_directory_block 0 sbp_rom 52 10 36 16 0x18 (Some 20)
     (sbp_rom_top @ [sbp_rom_unit]) = Some (Inr (sbp_rom_top @ [sbp_rom_unit]))"
proof -
  have 1: "detect_ieee1212_blocks 13 sbp_rom 52 10 [] = Some (Inr (sbp_rom_top @ [sbp_rom_unit]))"
    by code_simp
  have 2: "list_ex (\<lambda>entry. offset entry = 36) (sbp_rom_top @ [sbp_rom_unit])"
    by (simp add: sbp_rom_unit_def)
  from discovery_terminates[where len = 52 and depth = 13 and data = sbp_rom and cap = 10
      and off = 36 and h = "sbp_rom_top @ [sbp_rom_unit]" and bl = 16 and key = "0x18"
      and p = "Some 20"]
    1 2
  show ?thesis by simp
qed

text \<open>
  C3.  With the length byte 0x40 the product \<^verbatim>\<open>4 * (quadlet & 0xff000000)\<close> wraps to 0:
  discovery takes the bus information block to be 4 bytes long, not 260, and goes on to
  succeed on a buffer of 8 bytes.
\<close>

theorem bus_info_length_wraps:
  "detect_ieee1212_bus_info_block_length wrapped_rom 8 0 = Inr 4 \<and>
   detect_ieee1212_blocks 2 wrapped_rom 8 10 [] = Some (Inr
     [\<lparr>offset = 0, length_b = 4, block_type = IEEE1212_BUS_INFO_BLOCK, data_u = None\<rparr>,
      \<lparr>offset = 4, length_b = 4, block_type = IEEE1212_ROOT_DIRECTORY_BLOCK, data_u = None\<rparr>])"
  by code_simp
section \<open>The endian detector\<close>

text \<open>
  C2.  \<^verbatim>\<open>bus_info_block_is_big_endian\<close> compares quadlet 1 of the buffer with 0x1394, not
  with 0x31333934: it answers yes exactly when quadlet 1, read in native order, is
  0x1394.  A buffer whose quadlet 1 is 0x31333934 (\<open>example_rom\<close>) is therefore left as
  it is, and a buffer whose quadlet 1 is 0x1394, which is not 0x31333934
  (\<open>swapped_rom\<close>), has every quadlet byte-swapped.  The bus name table of the same
  program (\<open>format_bus_info_block\<close>) recognises the bus by 0x31333934.
\<close>

theorem endian_detector_compares_0x1394:
  "bus_info_block_is_big_endian data len 0 = (data 1 = 0x1394) \<and>
   example_rom 1 = 0x31333934 \<and>
   \<not> bus_info_block_is_big_endian example_rom 48 0 \<and>
   to_host_order example_rom 48 = example_rom \<and>
   swapped_rom 1 \<noteq> 0x31333934 \<and>
   bus_info_block_is_big_endian swapped_rom 8 0 \<and>
   map (to_host_order swapped_rom 8) [0, 1] = [0x00040404, 0x94130000]"
proof -
  have 0: "bus_info_block_is_big_endian data len 0 = (data 1 = 0x1394)"
    by (simp add: bus_info_block_is_big_endian_def)
  have 1: "example_rom 1 = 0x31333934"
    by (simp add: example_rom_def rom_of_def)
  then have 2: "\<not> bus_info_block_is_big_endian example_rom 48 0"
    by (simp add: bus_info_block_is_big_endian_def)
  then have 3: "to_host_order example_rom 48 = example_rom"
    by (simp add: to_host_order_def)
  have 4: "swapped_rom 1 \<noteq> 0x31333934"
    "bus_info_block_is_big_endian swapped_rom 8 0"
    "map (to_host_order swapped_rom 8) [0, 1] = [0x00040404, 0x94130000]"
    by code_simp+
  from 0 1 2 3 4 show ?thesis by simp
qed

section \<open>The early exits of the program\<close>

text \<open>
  C7, as claimed, fails: when \<^verbatim>\<open>read\<close> returns 0 (the standard input is empty and is
  not a terminal) the program returns \<^verbatim>\<open>EXIT_FAILURE\<close> without writing anything to the
  standard error stream.
\<close>

theorem empty_input_is_silent:
  "\<not> (\<exists>r. main False 0 example_rom 10 = Some r \<and> stderr r \<noteq> [])"
  by (simp add: main_def)

text \<open>
  C7, amended.  When the standard input is a terminal, the program writes one
  diagnostic to the standard error stream, nothing to the standard output, and
  exits with \<^verbatim>\<open>EXIT_FAILURE\<close>.  When the standard input is not a terminal and \<^verbatim>\<open>read\<close>
  returns 0 or less (empty input, or an error), it exits with \<^verbatim>\<open>EXIT_FAILURE\<close> and
  writes nothing to either stream.  \<^verbatim>\<open>EXIT_FAILURE\<close> is not zero.
\<close>

theorem early_exits:
  "main True read_result data cap =
     Some \<lparr>exit_status = EXIT_FAILURE, stdout = [], stderr = [terminal_diagnostic]\<rparr> \<and>
   (read_result \<le> 0 \<longrightarrow>
      main False read_result data cap =
        Some \<lparr>exit_status = EXIT_FAILURE, stdout = [], stderr = []\<rparr>) \<and>
   EXIT_FAILURE \<noteq> 0"
  by (simp add: main_def EXIT_FAILURE_def)

theorem early_exits_witness:
  "(0::int) \<le> 0 \<and>
   main False 0 example_rom 10 =
     Some \<lparr>exit_status = EXIT_FAILURE, stdout = [], stderr = []\<rparr> \<and>
   main True 0 example_rom 10 =
     Some \<lparr>exit_status = EXIT_FAILURE, stdout = [], stderr = [terminal_diagnostic]\<rparr>"
  using early_exits[of 0 example_rom 10] by simp

section \<open>The base of the specifier walk\<close>

text \<open>
  C9.  The \<^verbatim>\<open>switch\<close> at the head of \<^verbatim>\<open>format_directory_block\<close> gives \<^verbatim>\<open>base\<close> a value
  for eight key ids only.  In \<open>model_keyed_rom\<close> the root directory refers to the
  directory at offset 36 under key id 0x17 (model): discovery returns that directory
  with key id 0x17, the \<^verbatim>\<open>switch\<close> leaves \<^verbatim>\<open>base\<close> without a value, the \<^verbatim>\<open>while\<close> loop
  reads it, and so neither the rendering of that directory nor the run of the program
  on that buffer has a defined result.
\<close>

theorem directory_base_without_value:
  "detect_ieee1212_blocks 13 model_keyed_rom 52 10 [] =
     Some (Inr (sbp_rom_top @
                [sbp_rom_unit\<lparr>data_u := Some \<lparr>key_id = 0x17, parent = Some 20\<rparr>\<rparr>])) \<and>
   directory_base (sbp_rom_unit\<lparr>data_u := Some \<lparr>key_id = 0x17, parent = Some 20\<rparr>\<rparr>)
     \<lparr>key_id = 0x17, parent = Some 20\<rparr> = Indeterminate \<and>
   format_directory_block LINE_WIDTH model_keyed_rom
     (sbp_rom_top @ [sbp_rom_unit\<lparr>data_u := Some \<lparr>key_id = 0x17, parent = Some 20\<rparr>\<rparr>])
     (sbp_rom_unit\<lparr>data_u := Some \<lparr>key_id = 0x17, parent = Some 20\<rparr>\<rparr>) = None \<and>
   main False 52 model_keyed_rom 10 = None"
proof -
  let ?d = "sbp_rom_unit\<lparr>data_u := Some \<lparr>key_id = 0x17, parent = Some 20\<rparr>\<rparr>"
  let ?head = "sbp_rom_top @ [?d]"
  have 1: "detect_ieee1212_blocks 13 model_keyed_rom 52 10 [] = Some (Inr ?head)"
    by code_simp
  have 2: "directory_base ?d \<lparr>key_id = 0x17, parent = Some 20\<rparr> = Indeterminate"
    by code_simp
  have 3: "format_directory_block LINE_WIDTH model_keyed_rom ?head ?d = None"
    by code_simp
  have 4: "fulfill_orphan_blocks 52 10 (normalize_blocks ?head 52) = Inr ?head"
    by code_simp
  have 5: "to_host_order model_keyed_rom 52 = model_keyed_rom"
    by (simp add: to_host_order_def bus_info_block_is_big_endian_def model_keyed_rom_def
        rom_of_def)
  have "format_block LINE_WIDTH model_keyed_rom 52 ?head ?d = None"
    using 3 by (simp add: format_block_def sbp_rom_unit_def)
  then have "print_blocks_loop model_keyed_rom 52 ?head ?head = None"
    by (rule print_blocks_loop_None[rotated]) simp
  then have "main False 52 model_keyed_rom 10 = None"
    using 1 4 5 by (simp add: main_def print_blocks_def)
  with 1 2 3 show ?thesis by simp
qed


section \<open>The CRC annotation\<close>

text \<open>
  C4, as claimed, fails.  In \<open>overlap_rom\<close> the header of the leaf at offset 32 declares
  two quadlets and its CRC field holds the CRC of the two quadlets that follow the
  header.  The list gives the leaf the length 4, because the next block starts at
  offset 36; the CRC is computed over no quadlet, and the header line carries the
  annotation \<^verbatim>\<open>(should be 0)\<close>.
\<close>

theorem crc_not_over_declared_length:
  "detect_ieee1212_blocks 11 overlap_rom 44 10 [] = Some (Inr overlap_head) \<and>
   fulfill_orphan_blocks 44 10 (normalize_blocks overlap_head 44) = Inr overlap_blocks \<and>
   overlap_leaf \<in> set overlap_blocks \<and>
   format_block LINE_WIDTH overlap_rom 44 overlap_blocks overlap_leaf =
     Some [''               descriptor leaf at 420'',
           ''               -----------------------------------------------------------------'',
           ''420  00020c4d  leaf_length 2 (actual length 0), crc 3149 (should be 0)''] \<and>
   unat (drop_bit 16 (content overlap_rom overlap_leaf 0)) = 2 \<and>
   stored_crc overlap_rom overlap_leaf =
     compute_itu_t_crc_16 (\<lambda>i. content overlap_rom overlap_leaf (i + 1)) 2 \<and>
   sublist '' (should be ''
     ''420  00020c4d  leaf_length 2 (actual length 0), crc 3149 (should be 0)''"
proof -
  have "overlap_leaf \<in> set overlap_blocks" by (simp add: overlap_blocks_def)
  moreover have "unat (drop_bit 16 (content overlap_rom overlap_leaf 0)) = 2"
    by code_simp
  moreover have "stored_crc overlap_rom overlap_leaf =
     compute_itu_t_crc_16 (\<lambda>i. content overlap_rom overlap_leaf (i + 1)) 2"
    by code_simp
  moreover have "sublist '' (should be ''
     ''420  00020c4d  leaf_length 2 (actual length 0), crc 3149 (should be 0)''"
    by code_simp
  ultimately show ?thesis using overlap_detect overlap_fulfill overlap_leaf_lines by simp
qed

text \<open>
  C4, amended.  For every root directory, leaf or directory block that lies in the
  first 1024 bytes and that \<^verbatim>\<open>format_block\<close> renders, the header line (the third line of
  the block) contains \<^verbatim>\<open>" (should be "\<close> if and only if the CRC field of the header
  differs from the CRC computed over the quadlets after the header that belong to the
  block in the list, that is \<open>length_b block div 4 - 1\<close> quadlets, which are fewer than
  the header declares when the block was cut; when they differ the line ends with
  \<^verbatim>\<open>" (should be N)"\<close>, \<open>N\<close> being that CRC in decimal; and when the CRC field is
  overwritten with that CRC, the header line of the block has no annotation.
\<close>

theorem crc_annotation_over_block_content:
  assumes "block_type block \<in> {IEEE1212_ROOT_DIRECTORY_BLOCK, IEEE1212_LEAF_BLOCK,
                                  IEEE1212_DIRECTORY_BLOCK}"
    and "4 \<le> length_b block" and "offset block + length_b block \<le> 1024"
    and "format_block LINE_WIDTH data data_length head block = Some ls"
  shows "(sublist '' (should be '' (ls ! 2) \<longleftrightarrow> stored_crc data block \<noteq> content_crc data block) \<and>
         (stored_crc data block \<noteq> content_crc data block \<longrightarrow>
            suffix ('' (should be '' @ dec (unat (content_crc data block)) @ '')'') (ls ! 2)) \<and>
         (\<forall>ls'. format_block LINE_WIDTH (with_crc data block (content_crc data block))
                  data_length head block = Some ls' \<longrightarrow>
               \<not> sublist '' (should be '' (ls' ! 2))"
proof -
  have "\<not> sublist '' (should be '' (ls' ! 2)"
    if "format_block LINE_WIDTH (with_crc data block (content_crc data block))
                  data_length head block = Some ls'" for ls'
    using crc_annotation[OF assms(1,2,3) that] crc_round_trip[of data block] by simp
  with crc_annotation[OF assms] show ?thesis by blast
qed

text \<open>
  The leaf at offset 36 of \<open>example_rom\<close> has the CRC field 0 and the content CRC 46124;
  with the field overwritten the annotation is gone.
\<close>

theorem crc_annotation_over_block_content_witness:
  "block_type (example_blocks ! 3) = IEEE1212_LEAF_BLOCK \<and>
   length_b (example_blocks ! 3) = 8 \<and> offset (example_blocks ! 3) = 36 \<and>
   format_block LINE_WIDTH example_rom 48 example_blocks (example_blocks ! 3) =
     Some [''               descriptor leaf at 424'',
           ''               -----------------------------------------------------------------'',
           ''424  00010000  leaf_length 1, crc 0 (should be 46124)'',
           ''428  12345678  descriptor_type 12, specifier_ID 0''] \<and>
   stored_crc example_rom (example_blocks ! 3) = 0 \<and>
   content_crc example_rom (example_blocks ! 3) = 46124 \<and>
   sublist '' (should be '' ''424  00010000  leaf_length 1, crc 0 (should be 46124)'' \<and>
   suffix '' (should be 46124)'' ''424  00010000  leaf_length 1, crc 0 (should be 46124)'' \<and>
   format_block LINE_WIDTH (with_crc example_rom (example_blocks ! 3) 46124) 48 example_blocks
     (example_blocks ! 3) =
     Some [''               descriptor leaf at 424'',
           ''               -----------------------------------------------------------------'',
           ''424  0001b42c  leaf_length 1, crc 46124'',
           ''428  12345678  descriptor_type 12, specifier_ID 0''] \<and>
   \<not> sublist '' (should be '' ''424  0001b42c  leaf_length 1, crc 46124''"
proof -
  have b: "block_type (example_blocks ! 3) = IEEE1212_LEAF_BLOCK"
    "length_b (example_blocks ! 3) = 8" "offset (example_blocks ! 3) = 36"
    by (simp_all add: example_blocks_def)
  have c: "stored_crc example_rom (example_blocks ! 3) = 0"
    "content_crc example_rom (example_blocks ! 3) = 46124"
    by code_simp+
  have d: "dec (unat (46124 :: 16 word)) = ''46124''" by code_simp
  from crc_annotation_over_block_content[of "example_blocks ! 3" example_rom 48 example_blocks,
      OF _ _ _ example_leaf_lines]
    b c d example_leaf_lines example_leaf_lines_with_crc
  show ?thesis by simp
qed


section \<open>The line of the SBP-2 logical unit number\<close>

text \<open>
  C8, as claimed, fails.  The unit directory of \<open>sbp_rom\<close> holds the immediate entries
  specifier id 0x00609e, version 0x010483 and then key id 0x14 with value 0.  The line of
  the last entry is \<^verbatim>\<open>430  14000000  SBP-2 logical unit number:  ordered 0,type Disk,\<close>: two
  spaces follow the colon and none follows the comma, so the line does not include the
  text \<^verbatim>\<open>SBP-2 logical unit number: ordered 0, type Disk,\<close>.
\<close>

theorem sbp_line_differs:
  "detect_ieee1212_blocks 13 sbp_rom 52 10 [] = Some (Inr (sbp_rom_top @ [sbp_rom_unit])) \<and>
   fulfill_orphan_blocks 52 10 (normalize_blocks (sbp_rom_top @ [sbp_rom_unit]) 52) =
     Inr (sbp_rom_top @ [sbp_rom_unit]) \<and>
   data_u sbp_rom_unit = Some \<lparr>key_id = KEY_ID_CSR_UNIT, parent = Some 20\<rparr> \<and>
   map (content sbp_rom sbp_rom_unit) [1, 2, 3] = [0x1200609e, 0x13010483, 0x14000000] \<and>
   format_block LINE_WIDTH sbp_rom 52 (sbp_rom_top @ [sbp_rom_unit]) sbp_rom_unit =
     Some [''               unit directory at 424'',
           ''               -----------------------------------------------------------------'',
           ''424  00030000  directory_length 3, crc 0 (should be 46019)'',
           ''428  1200609e  specifier id'',
           ''42c  13010483  version'',
           ''430  14000000  SBP-2 logical unit number:  ordered 0,type Disk,''] \<and>
   \<not> sublist ''SBP-2 logical unit number: ordered 0, type Disk,''
       ''430  14000000  SBP-2 logical unit number:  ordered 0,type Disk,''"
proof -
  have "data_u sbp_rom_unit = Some \<lparr>key_id = KEY_ID_CSR_UNIT, parent = Some 20\<rparr>"
    by (simp add: sbp_rom_unit_def KEY_ID_CSR_UNIT_def)
  moreover have "map (content sbp_rom sbp_rom_unit) [1, 2, 3] =
      [0x1200609e, 0x13010483, 0x14000000]"
    by code_simp
  moreover have "\<not> sublist ''SBP-2 logical unit number: ordered 0, type Disk,''
       ''430  14000000  SBP-2 logical unit number:  ordered 0,type Disk,''"
    by code_simp
  ultimately show ?thesis using sbp_detect sbp_fulfill sbp_unit_lines by simp
qed

text \<open>
  C8, amended.  Let a directory block of the list lie in the first 1024 bytes, be stored
  under the key id of a unit directory, and have 0x00609e as the value of its first
  immediate entry with key id specifier id or vendor info and 0x010483 as the value of
  its first immediate entry with key id version.  If \<^verbatim>\<open>format_block\<close> renders the block and
  the quadlet at index \<open>i\<close> of the block is 0x14000000 (immediate, key id 0x14, value 0),
  then the line of that entry is the offset and the quadlet followed by
  \<^verbatim>\<open>SBP-2 logical unit number:  ordered 0,type Disk,\<close>.
\<close>

theorem sbp_logical_unit_line_text:
  assumes "block_type directory = IEEE1212_DIRECTORY_BLOCK"
    and "data_u directory = Some d" and "key_id d = KEY_ID_CSR_UNIT"
    and "directory \<in> set head" and "distinct (map offset head)"
    and "declared_identifier data directory =
           Some \<lparr>specifier_id = 0x00609e, version = 0x010483\<rparr>"
    and "offset directory + length_b directory \<le> 1024"
    and "format_block LINE_WIDTH data data_length head directory = Some ls"
    and "1 \<le> i" and "i < length_b directory div 4"
    and "content data directory i = 0x14000000"
  shows "ls ! (2 + i) =
         line_prefix (offset directory + i * 4) 0x14000000 @
         ''SBP-2 logical unit number:  ordered 0,type Disk,''"
proof -
  from directory_lines_of_block[OF assms(1,8,9,10)] assms(2) obtain ident where
    id: "directory_identifier data head directory d = Some ident"
    and l: "format_directory_entry_line LINE_WIDTH (offset directory) (content data directory)
              ident i = Some (ls ! (2 + i))"
    by auto
  have b: "directory_base directory d = Pointer (Some (offset directory))"
    using assms(3)
    by (simp add: directory_base_def KEY_ID_CSR_UNIT_def KEY_ID_CSR_VENDOR_INFO_def
        KEY_ID_CSR_MODULE_INFO_def KEY_ID_CSR_DESCRIPTOR_def KEY_ID_CSR_BUS_DEP_INFO_def
        KEY_ID_CSR_DEP_INFO_def KEY_ID_CSR_INSTANCE_def)
  from directory_identifier_declared[OF id b block_at_member[OF assms(4,5)] assms(6)]
  have "ident = \<lparr>specifier_id = 0x00609e, version = 0x010483\<rparr>" .
  moreover have "offset directory + i * 4 < 3072" using assms(7,10) by simp
  ultimately show ?thesis
    using l sbp_logical_unit_line[of "content data directory" i "offset directory",
        OF assms(11)] by simp
qed

theorem sbp_logical_unit_line_text_witness:
  "block_type sbp_rom_unit = IEEE1212_DIRECTORY_BLOCK \<and>
   data_u sbp_rom_unit = Some \<lparr>key_id = KEY_ID_CSR_UNIT, parent = Some 20\<rparr> \<and>
   sbp_rom_unit \<in> set (sbp_rom_top @ [sbp_rom_unit]) \<and>
   distinct (map offset (sbp_rom_top @ [sbp_rom_unit])) \<and>
   declared_identifier sbp_rom sbp_rom_unit =
     Some \<lparr>specifier_id = 0x00609e, version = 0x010483\<rparr> \<and>
   offset sbp_rom_unit + length_b sbp_rom_unit \<le> 1024 \<and>
   (3::nat) < length_b sbp_rom_unit div 4 \<and>
   content sbp_rom sbp_rom_unit 3 = 0x14000000 \<and>
   format_block LINE_WIDTH sbp_rom 52 (sbp_rom_top @ [sbp_rom_unit]) sbp_rom_unit =
     Some [''               unit directory at 424'',
           ''               -----------------------------------------------------------------'',
           ''424  00030000  directory_length 3, crc 0 (should be 46019)'',
           ''428  1200609e  specifier id'',
           ''42c  13010483  version'',
           ''430  14000000  SBP-2 logical unit number:  ordered 0,type Disk,''] \<and>
   line_prefix (offset sbp_rom_unit + 3 * 4) 0x14000000 @
     ''SBP-2 logical unit number:  ordered 0,type Disk,'' =
   ''430  14000000  SBP-2 logical unit number:  ordered 0,type Disk,''"
proof -
  have u: "block_type sbp_rom_unit = IEEE1212_DIRECTORY_BLOCK"
    "data_u sbp_rom_unit = Some \<lparr>key_id = KEY_ID_CSR_UNIT, parent = Some 20\<rparr>"
    "key_id \<lparr>key_id = KEY_ID_CSR_UNIT, parent = Some 20\<rparr> = KEY_ID_CSR_UNIT"
    "sbp_rom_unit \<in> set (sbp_rom_top @ [sbp_rom_unit])"
    "distinct (map offset (sbp_rom_top @ [sbp_rom_unit]))"
    "offset sbp_rom_unit + length_b sbp_rom_unit \<le> 1024"
    "(1::nat) \<le> 3" "(3::nat) < length_b sbp_rom_unit div 4"
    by (simp_all add: sbp_rom_unit_def sbp_rom_top_def KEY_ID_CSR_UNIT_def)
  have c: "content sbp_rom sbp_rom_unit 3 = 0x14000000" by code_simp
  from sbp_logical_unit_line_text[OF u(1,2,3,4,5) sbp_unit_declared u(6) sbp_unit_lines u(7,8) c]
    u c sbp_unit_declared sbp_unit_lines
  show ?thesis by simp
qed


section \<open>The name of the specification before an entry\<close>





end
